theory Spec2Isabelle
  imports Complex_Main "HOL-Library.Char_ord" "HOL-Library.List_Lexorder"
begin

section \<open>Instants, strings and JavaScript truthiness\<close>

text \<open>
  A \<open>Date\<close> is its number of milliseconds since the epoch. The local calendar of the
  process is a fixed offset \<open>tz\<close> (milliseconds east of UTC) that every function reading
  local fields takes as its first argument. Minutes, cents and counts are integers;
  prices and percentages are exact rationals, \<open>Math.round\<close> is \<^const>\<open>round\<close>
  (halves go up).
\<close>

type_synonym instant = int

definition msPerMinute :: int where
  "msPerMinute = 60000"

definition msPerDay :: int where
  "msPerDay = 86400000"

text \<open>
  Modelled from the spec: \<open>addMinutes\<close> is imported from \<open>./availability\<close>, which is
  not among the sources; the conflict detector pads and expands windows "by buffer"
  minutes, so it moves an instant by that many minutes.
\<close>

definition addMinutes :: "instant \<Rightarrow> int \<Rightarrow> instant" where
  "addMinutes d m = d + m * msPerMinute"

definition startOfDay :: "int \<Rightarrow> instant \<Rightarrow> instant" where
  "startOfDay tz d = d - ((d + tz) mod msPerDay)"

definition endOfDay :: "int \<Rightarrow> instant \<Rightarrow> instant" where
  "endOfDay tz d = startOfDay tz d + (msPerDay - 1)"

definition getDay :: "int \<Rightarrow> instant \<Rightarrow> int" where
  "getDay tz d = (((d + tz) div msPerDay) + 4) mod 7"

definition getHours :: "int \<Rightarrow> instant \<Rightarrow> int" where
  "getHours tz d = ((d + tz) mod msPerDay) div 3600000"

definition truthy :: "string option \<Rightarrow> bool" where
  "truthy s = (case s of None \<Rightarrow> False | Some v \<Rightarrow> v \<noteq> [])"

definition upperChar :: "char \<Rightarrow> char" where
  "upperChar c = (if CHR ''a'' \<le> c \<and> c \<le> CHR ''z''
                  then char_of (of_char c - (32::nat)) else c)"

definition toUpperCase :: "string \<Rightarrow> string" where
  "toUpperCase s = map upperChar s"

definition jsString :: "string option \<Rightarrow> string" where
  "jsString s = (case s of None \<Rightarrow> ''undefined'' | Some v \<Rightarrow> v)"

section \<open>Stored rows\<close>

record Service =
  svc_id :: string
  svc_tenantId :: "string option"
  svc_category :: "string option"
  svc_status :: "string option"
  svc_active :: "bool option"
  svc_bookingEnabled :: "bool option"
  svc_basePrice :: "rat option"
  svc_price :: "rat option"
  svc_duration :: "int option"
  svc_bufferTime :: "int option"
  svc_maxDailyBookings :: "int option"

datatype BookingStatus = PENDING | CONFIRMED | COMPLETED | CANCELLED

record Booking =
  bk_id :: string
  bk_serviceId :: string
  bk_status :: BookingStatus
  bk_scheduledAt :: instant
  bk_duration :: int
  bk_assignedTeamMemberId :: "string option"

definition findService :: "Service list \<Rightarrow> string \<Rightarrow> Service option" where
  "findService services sid = find (\<lambda>s. svc_id s = sid) services"

section \<open>Conflict detection\<close>

datatype ConflictReason = SERVICE_INACTIVE | OVERLAP | DAILY_CAP | OUTSIDE_BUSINESS_HOURS

record ConflictDetails =
  reason :: ConflictReason
  conflictingBookingId :: "string option"
  info_maxDaily :: "int option"

record ConflictResult =
  conflict :: bool
  details :: "ConflictDetails option"

record CheckConflictParams =
  p_serviceId :: string
  p_start :: instant
  p_durationMinutes :: int
  p_excludeBookingId :: "string option"
  p_teamMemberId :: "string option"
  p_tenantId :: "string option"

record Busy =
  busy_id :: string
  busy_start :: instant
  busy_end :: instant

definition overlaps :: "instant \<Rightarrow> instant \<Rightarrow> instant \<Rightarrow> instant \<Rightarrow> bool" where
  "overlaps aStart aEnd bStart bEnd = (aStart < bEnd \<and> bStart < aEnd)"

definition serviceBookable :: "Service \<Rightarrow> bool" where
  "serviceBookable s =
     (toUpperCase (jsString (svc_status s)) = ''ACTIVE'' \<and> svc_bookingEnabled s \<noteq> Some False)"

definition bufferOf :: "Service \<Rightarrow> int" where
  "bufferOf s = (case svc_bufferTime s of Some b \<Rightarrow> b | None \<Rightarrow> 0)"

definition maxDailyOf :: "Service \<Rightarrow> int" where
  "maxDailyOf s = (case svc_maxDailyBookings s of Some m \<Rightarrow> m | None \<Rightarrow> 0)"

definition windowStart :: "int \<Rightarrow> int \<Rightarrow> instant \<Rightarrow> instant" where
  "windowStart tz buffer startDt = addMinutes (startOfDay tz startDt) (- max 60 buffer)"

definition windowEnd :: "int \<Rightarrow> int \<Rightarrow> instant \<Rightarrow> instant" where
  "windowEnd tz buffer startDt = addMinutes (endOfDay tz startDt) (max 60 buffer)"

text \<open>The \<open>where\<close> clause of \<open>prisma.bookings.findMany\<close>; rows come back in store order.\<close>

definition bookingMatches ::
  "string \<Rightarrow> instant \<Rightarrow> instant \<Rightarrow> string option \<Rightarrow> string option \<Rightarrow> Booking \<Rightarrow> bool" where
  "bookingMatches sid wStart wEnd teamMemberId excludeBookingId b =
     (bk_serviceId b = sid
      \<and> (bk_status b = PENDING \<or> bk_status b = CONFIRMED)
      \<and> wStart \<le> bk_scheduledAt b \<and> bk_scheduledAt b \<le> wEnd
      \<and> (if truthy teamMemberId then bk_assignedTeamMemberId b = teamMemberId else True)
      \<and> (if truthy excludeBookingId then Some (bk_id b) \<noteq> excludeBookingId else True))"

definition findManyBookings ::
  "Booking list \<Rightarrow> string \<Rightarrow> instant \<Rightarrow> instant \<Rightarrow> string option \<Rightarrow> string option
     \<Rightarrow> Booking list" where
  "findManyBookings bookings sid wStart wEnd teamMemberId excludeBookingId =
     filter (bookingMatches sid wStart wEnd teamMemberId excludeBookingId) bookings"

definition toBusy :: "int \<Rightarrow> Booking \<Rightarrow> Busy" where
  "toBusy buffer b =
     \<lparr> busy_id = bk_id b,
       busy_start = addMinutes (bk_scheduledAt b) (- buffer),
       busy_end = addMinutes (addMinutes (bk_scheduledAt b) (bk_duration b)) buffer \<rparr>"

definition countToday :: "int \<Rightarrow> instant \<Rightarrow> Booking list \<Rightarrow> int" where
  "countToday tz startDt fetched =
     int (length (filter
       (\<lambda>b. overlaps (bk_scheduledAt b) (addMinutes (bk_scheduledAt b) (bk_duration b))
               (startOfDay tz startDt) (endOfDay tz startDt)) fetched))"

definition dailyCapReached :: "int \<Rightarrow> int \<Rightarrow> instant \<Rightarrow> Booking list \<Rightarrow> bool" where
  "dailyCapReached maxDaily tz startDt fetched =
     (maxDaily > 0 \<and> countToday tz startDt fetched \<ge> maxDaily)"

text \<open>The rows the detector fetches for a request on service \<open>s\<close>.\<close>

definition fetchedFor :: "int \<Rightarrow> Service \<Rightarrow> Booking list \<Rightarrow> CheckConflictParams \<Rightarrow> Booking list" where
  "fetchedFor tz s bookings params =
     findManyBookings bookings (p_serviceId params)
       (windowStart tz (bufferOf s) (p_start params)) (windowEnd tz (bufferOf s) (p_start params))
       (p_teamMemberId params) (p_excludeBookingId params)"

definition conflictOf :: "ConflictReason \<Rightarrow> string option \<Rightarrow> int option \<Rightarrow> ConflictResult" where
  "conflictOf r bid cap =
     \<lparr> conflict = True,
       details = Some \<lparr> reason = r, conflictingBookingId = bid, info_maxDaily = cap \<rparr> \<rparr>"

definition noConflict :: ConflictResult where
  "noConflict = \<lparr> conflict = False, details = None \<rparr>"

definition checkBookingConflict ::
  "int \<Rightarrow> Service list \<Rightarrow> Booking list \<Rightarrow> CheckConflictParams \<Rightarrow> ConflictResult" where
  "checkBookingConflict tz services bookings params =
     (case findService services (p_serviceId params) of
        None \<Rightarrow> conflictOf SERVICE_INACTIVE None None
      | Some s \<Rightarrow>
        if \<not> serviceBookable s then conflictOf SERVICE_INACTIVE None None
        else
          let buffer = bufferOf s;
              maxDaily = maxDailyOf s;
              startDt = p_start params;
              endDt = addMinutes startDt (p_durationMinutes params);
              fetched = fetchedFor tz s bookings params;
              busy = map (toBusy buffer) fetched
          in if dailyCapReached maxDaily tz startDt fetched
             then conflictOf DAILY_CAP None (Some maxDaily)
             else (case find (\<lambda>b. overlaps startDt endDt (busy_start b) (busy_end b)) busy of
                     Some conflictWith \<Rightarrow> conflictOf OVERLAP (Some (busy_id conflictWith)) None
                   | None \<Rightarrow> noConflict))"

section \<open>Pricing\<close>

record PriceComponent =
  code :: string
  label :: string
  amountCents :: int

record PriceBreakdown =
  currency :: string
  baseCents :: int
  components :: "PriceComponent list"
  subtotalCents :: int
  totalCents :: int

record PeakRange =
  startHour :: int
  endHour :: int

record PricingOptions =
  opt_currency :: "string option"
  weekendSurchargePercent :: "rat option"
  emergencySurchargePercent :: "rat option"
  peakHours :: "PeakRange list option"
  peakSurchargePercent :: "rat option"
  promoCode :: "string option"
  promoResolver :: "(string \<Rightarrow> string \<Rightarrow> PriceComponent option) option"

record PriceParams =
  pp_serviceId :: string
  pp_scheduledAt :: instant
  pp_durationMinutes :: "int option"
  pp_options :: "PricingOptions option"

record OrganizationSettings =
  org_tenantId :: "string option"
  org_defaultCurrency :: "string option"

record ExchangeRate =
  xr_base :: string
  xr_target :: string
  xr_rate :: rat
  xr_fetchedAt :: instant

text \<open>What the pricing engine reads: three tables and the process environment.\<close>

record PricingEnv =
  env_services :: "Service list"
  env_organizationSettings :: "OrganizationSettings list"
  env_exchangeRates :: "ExchangeRate list"
  env_EXCHANGE_BASE_CURRENCY :: "string option"

definition noOptions :: PricingOptions where
  "noOptions = \<lparr> opt_currency = None, weekendSurchargePercent = None,
     emergencySurchargePercent = None, peakHours = None, peakSurchargePercent = None,
     promoCode = None, promoResolver = None \<rparr>"

definition percentOf :: "int \<Rightarrow> rat \<Rightarrow> int" where
  "percentOf cents percent = round (of_int cents * percent)"

text \<open>
  Modelled from the spec: \<open>convertCents\<close> is imported from \<open>@/lib/exchange\<close>, which is
  not among the sources. The spec converts "every cent amount (base + every component) via
  a rate" and rounds every amount to the nearest cent on its own.
\<close>

definition convertCents :: "int \<Rightarrow> rat \<Rightarrow> int" where
  "convertCents cents rate = round (of_int cents * rate)"

definition isWeekend :: "int \<Rightarrow> instant \<Rightarrow> bool" where
  "isWeekend tz d = (let day = getDay tz d in day = 0 \<or> day = 6)"

definition isWithinPeak :: "int \<Rightarrow> instant \<Rightarrow> PeakRange list \<Rightarrow> bool" where
  "isWithinPeak tz d ranges =
     (let h = getHours tz d in list_ex (\<lambda>r. h \<ge> startHour r \<and> h < endHour r) ranges)"

definition zeroBreakdown :: PriceBreakdown where
  "zeroBreakdown =
     \<lparr> currency = ''USD'', baseCents = 0, components = [], subtotalCents = 0, totalCents = 0 \<rparr>"

text \<open>The guard of the early return, for a service that was found.\<close>

definition serviceUnpriced :: "Service \<Rightarrow> bool" where
  "serviceUnpriced svc =
     (if truthy (svc_status svc)
      then toUpperCase (jsString (svc_status svc)) \<noteq> ''ACTIVE''
      else svc_active svc = Some False)"

definition resolveBaseCurrency :: "PricingEnv \<Rightarrow> Service \<Rightarrow> string" where
  "resolveBaseCurrency env svc =
     (let baseCurrency = (if truthy (env_EXCHANGE_BASE_CURRENCY env)
                          then jsString (env_EXCHANGE_BASE_CURRENCY env) else ''USD'')
      in if truthy (svc_tenantId svc)
         then (case find (\<lambda>org. org_tenantId org = svc_tenantId svc) (env_organizationSettings env) of
                 Some org \<Rightarrow> if truthy (org_defaultCurrency org)
                             then jsString (org_defaultCurrency org) else baseCurrency
               | None \<Rightarrow> baseCurrency)
         else baseCurrency)"

definition overageComponents :: "int \<Rightarrow> int \<Rightarrow> int \<Rightarrow> PriceComponent list" where
  "overageComponents baseC durationMinutes standardDuration =
     (if durationMinutes > standardDuration \<and> baseC > 0
      then let extra = durationMinutes - standardDuration;
               overageCents = round ((of_int (baseC * extra) :: rat) / of_int standardDuration)
           in if overageCents > 0
              then [\<lparr> code = ''OVERAGE'', label = ''Duration overage'', amountCents = overageCents \<rparr>]
              else []
      else [])"

definition weekendPctOf :: "PricingOptions \<Rightarrow> rat" where
  "weekendPctOf options =
     (case weekendSurchargePercent options of Some p \<Rightarrow> p | None \<Rightarrow> 15 / 100)"

definition weekendComponents :: "int \<Rightarrow> instant \<Rightarrow> int \<Rightarrow> PricingOptions \<Rightarrow> PriceComponent list" where
  "weekendComponents tz scheduledAt baseC options =
     (let weekendPct = weekendPctOf options
      in if weekendPct > 0 \<and> isWeekend tz scheduledAt
         then let w = percentOf baseC weekendPct
              in if w > 0
                 then [\<lparr> code = ''WEEKEND'', label = ''Weekend surcharge'', amountCents = w \<rparr>]
                 else []
         else [])"

definition peakComponents :: "int \<Rightarrow> instant \<Rightarrow> int \<Rightarrow> PricingOptions \<Rightarrow> PriceComponent list" where
  "peakComponents tz scheduledAt baseC options =
     (let peakRanges = (case peakHours options of Some rs \<Rightarrow> rs
                        | None \<Rightarrow> [\<lparr> startHour = 10, endHour = 12 \<rparr>,
                                   \<lparr> startHour = 15, endHour = 17 \<rparr>]);
          peakPct = (case peakSurchargePercent options of Some p \<Rightarrow> p | None \<Rightarrow> 1 / 10)
      in if peakPct > 0 \<and> length peakRanges > 0 \<and> isWithinPeak tz scheduledAt peakRanges
         then let p = percentOf baseC peakPct
              in if p > 0
                 then [\<lparr> code = ''PEAK'', label = ''Peak hours surcharge'', amountCents = p \<rparr>]
                 else []
         else [])"

definition emergencyComponents :: "int \<Rightarrow> PricingOptions \<Rightarrow> PriceComponent list" where
  "emergencyComponents baseC options =
     (let emergencyPct = (case emergencySurchargePercent options of Some p \<Rightarrow> p | None \<Rightarrow> 0)
      in if emergencyPct > 0
         then let e = percentOf baseC emergencyPct
              in if e > 0
                 then [\<lparr> code = ''EMERGENCY'', label = ''Emergency surcharge'', amountCents = e \<rparr>]
                 else []
         else [])"

definition promoComponents :: "string \<Rightarrow> PricingOptions \<Rightarrow> PriceComponent list" where
  "promoComponents serviceId options =
     (if truthy (promoCode options)
      then (case promoResolver options of
              Some resolver \<Rightarrow>
                (case resolver (jsString (promoCode options)) serviceId of
                   Some discount \<Rightarrow> [discount \<lparr> amountCents := amountCents discount \<rparr>]
                 | None \<Rightarrow> [])
            | None \<Rightarrow> [])
      else [])"

text \<open>\<open>components.reduce((sum, c) => sum + c.amountCents, 0)\<close>\<close>

definition sumAmounts :: "PriceComponent list \<Rightarrow> int" where
  "sumAmounts cs = foldl (\<lambda>sum c. sum + amountCents c) 0 cs"

text \<open>
  \<open>findFirst\<close> ordered by \<open>fetchedAt\<close> descending: the matching row fetched last, the
  earliest such row in store order when several share that instant.
\<close>

definition latestRate :: "ExchangeRate list \<Rightarrow> string \<Rightarrow> string \<Rightarrow> ExchangeRate option" where
  "latestRate rows base target =
     (case filter (\<lambda>r. xr_base r = base \<and> xr_target r = target) rows of
        [] \<Rightarrow> None
      | r # rs \<Rightarrow> Some (foldl (\<lambda>best x. if xr_fetchedAt x > xr_fetchedAt best then x else best) r rs))"

definition optionsOf :: "PriceParams \<Rightarrow> PricingOptions" where
  "optionsOf params = (case pp_options params of Some opts \<Rightarrow> opts | None \<Rightarrow> noOptions)"

definition baseCentsOf :: "Service \<Rightarrow> int" where
  "baseCentsOf svc =
     (let basePrice = (case svc_basePrice svc of Some p \<Rightarrow> p
                       | None \<Rightarrow> (case svc_price svc of Some p \<Rightarrow> p | None \<Rightarrow> 0))
      in round (basePrice * 100))"

definition standardDurationOf :: "Service \<Rightarrow> int" where
  "standardDurationOf svc = max 15 (case svc_duration svc of Some d \<Rightarrow> d | None \<Rightarrow> 60)"

text \<open>The component list of a priced service, in the order the engine pushes it.\<close>

definition componentsFor :: "int \<Rightarrow> Service \<Rightarrow> PriceParams \<Rightarrow> PriceComponent list" where
  "componentsFor tz svc params =
     (let options = optionsOf params;
          scheduledAt = pp_scheduledAt params;
          standardDuration = standardDurationOf svc;
          baseC = baseCentsOf svc;
          durationMinutes = max 15 (case pp_durationMinutes params of Some d \<Rightarrow> d
                                    | None \<Rightarrow> standardDuration)
      in overageComponents baseC durationMinutes standardDuration
         @ weekendComponents tz scheduledAt baseC options
         @ peakComponents tz scheduledAt baseC options
         @ emergencyComponents baseC options
         @ promoComponents (pp_serviceId params) options)"

definition targetCurrencyOf :: "PricingOptions \<Rightarrow> string \<Rightarrow> string" where
  "targetCurrencyOf options baseCurrency =
     (if truthy (opt_currency options) then jsString (opt_currency options) else baseCurrency)"

definition calculateServicePrice :: "int \<Rightarrow> PricingEnv \<Rightarrow> PriceParams \<Rightarrow> PriceBreakdown" where
  "calculateServicePrice tz env params =
     (case findService (env_services env) (pp_serviceId params) of
        None \<Rightarrow> zeroBreakdown
      | Some svc \<Rightarrow>
        if serviceUnpriced svc then zeroBreakdown
        else
          let baseCurrency = resolveBaseCurrency env svc;
              targetCurrency = targetCurrencyOf (optionsOf params) baseCurrency;
              baseC = baseCentsOf svc;
              comps = componentsFor tz svc params;
              subtotal = baseC;
              totalBeforeCurrency = subtotal + sumAmounts comps
          in if targetCurrency \<noteq> baseCurrency
             then
               let rate = (case latestRate (env_exchangeRates env) baseCurrency targetCurrency of
                             Some row \<Rightarrow> xr_rate row | None \<Rightarrow> 1);
                   convertedBase = convertCents baseC rate;
                   convertedComponents =
                     map (\<lambda>c. c \<lparr> amountCents := convertCents (amountCents c) rate \<rparr>) comps;
                   convertedSubtotal = convertedBase;
                   convertedTotal = convertedSubtotal + sumAmounts convertedComponents
               in \<lparr> currency = targetCurrency, baseCents = convertedBase,
                    components = convertedComponents, subtotalCents = convertedSubtotal,
                    totalCents = convertedTotal \<rparr>
             else \<lparr> currency = baseCurrency, baseCents = baseC, components = comps,
                    subtotalCents = subtotal, totalCents = totalBeforeCurrency \<rparr>)"

section \<open>Auto-assignment\<close>

record TeamMember =
  tm_id :: string
  tm_name :: string
  tm_email :: "string option"
  tm_specialties :: "string list option"
  tm_status :: string
  tm_isAvailable :: bool
  tm_tenantId :: "string option"

record ServiceRequest =
  sr_id :: string
  sr_tenantId :: "string option"
  sr_serviceId :: "string option"
  sr_status :: string
  sr_assignedTeamMemberId :: "string option"
  sr_assignedAt :: "instant option"

record CandidateWorkload =
  tm :: TeamMember
  count :: int
  skillMatch :: bool

record ServiceRequestSettings =
  autoAssign :: bool
  autoAssignStrategy :: string
  defaultRequestStatus :: string

definition ACTIVE_STATUSES :: "string list" where
  "ACTIVE_STATUSES = [''ASSIGNED'', ''IN_PROGRESS'']"

definition ROTATION_CACHE_KEY_PREFIX :: string where
  "ROTATION_CACHE_KEY_PREFIX = ''service-requests:auto-assign:last-member''"

text \<open>
  Modelled from the spec: \<open>CacheService\<close> (\<open>@/lib/cache.service\<close>) is not among the
  sources. The spec has it as a key-value cache with get and set; an entry stays until
  it is overwritten (no eviction, the one-hour TTL does not run out).
\<close>

type_synonym cache = "string \<rightharpoonup> string"

definition cacheGet :: "cache \<Rightarrow> string \<Rightarrow> string option" where
  "cacheGet c key = c key"

definition cacheSet :: "cache \<Rightarrow> string \<Rightarrow> string \<Rightarrow> cache" where
  "cacheSet c key v = c(key \<mapsto> v)"

definition rotationKey :: "string option \<Rightarrow> string" where
  "rotationKey tenantId =
     ROTATION_CACHE_KEY_PREFIX @ '':'' @ (case tenantId of Some t \<Rightarrow> t | None \<Rightarrow> ''default'')"

text \<open>
  \<open>a.localeCompare(b)\<close> is \<open>String.prototype.localeCompare\<close>: the collation of the
  runtime's default locale, negative, zero or positive as \<open>a\<close> sorts before, with or
  after \<open>b\<close>. It is not part of the program, so every function that sorts takes it as
  its first argument, \<open>localeCompare\<close>. The language requires it to be a consistent
  comparator: any two strings are comparable, and the order is transitive.
\<close>

definition consistentComparator :: "(string \<Rightarrow> string \<Rightarrow> int) \<Rightarrow> bool" where
  "consistentComparator cmp =
     ((\<forall>a b. cmp a b \<le> 0 \<or> cmp b a \<le> 0)
      \<and> (\<forall>a b c. cmp a b \<le> 0 \<and> cmp b c \<le> 0 \<longrightarrow> cmp a c \<le> 0))"

text \<open>
  The order the default collation gives to strings of ASCII letters and digits: by the
  letters and digits with case ignored, digits before letters, and where that ties a
  lower-case letter before its upper-case form. So \<open>a\<close> sorts before \<open>B\<close>, which in
  the order of the character codes comes first.
\<close>

definition lowerChar :: "char \<Rightarrow> char" where
  "lowerChar c = (if CHR ''A'' \<le> c \<and> c \<le> CHR ''Z''
                  then char_of (of_char c + (32::nat)) else c)"

definition toLowerCase :: "string \<Rightarrow> string" where
  "toLowerCase s = map lowerChar s"

definition alnumCollate :: "string \<Rightarrow> string \<Rightarrow> int" where
  "alnumCollate a b =
     (if toLowerCase a < toLowerCase b then - 1
      else if toLowerCase b < toLowerCase a then 1
      else if b < a then - 1
      else if a = b then 0
      else 1)"

text \<open>
  \<open>Array.prototype.sort\<close> with a comparator, on a copy: the stable sort, an element
  going before the first one it does not compare greater than.
\<close>

fun insertWith :: "('a \<Rightarrow> 'a \<Rightarrow> int) \<Rightarrow> 'a \<Rightarrow> 'a list \<Rightarrow> 'a list" where
  "insertWith cmp x [] = [x]"
| "insertWith cmp x (y # ys) = (if cmp x y \<le> 0 then x # y # ys else y # insertWith cmp x ys)"

fun sortWith :: "('a \<Rightarrow> 'a \<Rightarrow> int) \<Rightarrow> 'a list \<Rightarrow> 'a list" where
  "sortWith cmp [] = []"
| "sortWith cmp (x # xs) = insertWith cmp x (sortWith cmp xs)"

text \<open>\<open>Array.prototype.findIndex\<close>: the first index that satisfies, or -1.\<close>

fun findIndex :: "('a \<Rightarrow> bool) \<Rightarrow> 'a list \<Rightarrow> int" where
  "findIndex P [] = - 1"
| "findIndex P (x # xs) =
     (if P x then 0 else (let i = findIndex P xs in if i < 0 then - 1 else i + 1))"

definition loadCompare ::
  "(string \<Rightarrow> string \<Rightarrow> int) \<Rightarrow> CandidateWorkload \<Rightarrow> CandidateWorkload \<Rightarrow> int" where
  "loadCompare localeCompare a b =
     (if count a - count b \<noteq> 0 then count a - count b
      else localeCompare (tm_id (tm a)) (tm_id (tm b)))"

definition idCompare ::
  "(string \<Rightarrow> string \<Rightarrow> int) \<Rightarrow> CandidateWorkload \<Rightarrow> CandidateWorkload \<Rightarrow> int" where
  "idCompare localeCompare a b = localeCompare (tm_id (tm a)) (tm_id (tm b))"

definition selectLoadBased ::
  "(string \<Rightarrow> string \<Rightarrow> int) \<Rightarrow> CandidateWorkload list \<Rightarrow> CandidateWorkload option" where
  "selectLoadBased localeCompare candidates =
     (if length candidates = 0 then None
      else (case sortWith (loadCompare localeCompare) candidates of c # _ \<Rightarrow> Some c | [] \<Rightarrow> None))"

definition selectSkillBased ::
  "(string \<Rightarrow> string \<Rightarrow> int) \<Rightarrow> CandidateWorkload list \<Rightarrow> CandidateWorkload option" where
  "selectSkillBased localeCompare candidates =
     (if length candidates = 0 then None
      else let skillMatches = filter skillMatch candidates
           in if length skillMatches \<noteq> 0 then selectLoadBased localeCompare skillMatches
              else selectLoadBased localeCompare candidates)"

text \<open>The index the rotation moves to, given the cached id.\<close>

definition nextIndex :: "CandidateWorkload list \<Rightarrow> string option \<Rightarrow> int" where
  "nextIndex ordered lastId =
     (let currentIndex = (if truthy lastId
                          then findIndex (\<lambda>entry. Some (tm_id (tm entry)) = lastId) ordered
                          else - 1)
      in if currentIndex \<ge> 0 then (currentIndex + 1) mod int (length ordered) else 0)"

definition selectRoundRobin ::
  "(string \<Rightarrow> string \<Rightarrow> int) \<Rightarrow> CandidateWorkload list \<Rightarrow> string option \<Rightarrow> cache
     \<Rightarrow> CandidateWorkload option \<times> cache" where
  "selectRoundRobin localeCompare candidates tenantId rotationCache =
     (if length candidates = 0 then (None, rotationCache)
      else
        let ordered = sortWith (idCompare localeCompare) candidates;
            key = rotationKey tenantId;
            lastId = cacheGet rotationCache key;
            next = nextIndex ordered lastId
        in if 0 \<le> next \<and> nat next < length ordered
           then let chosen = ordered ! nat next
                in (Some chosen, cacheSet rotationCache key (tm_id (tm chosen)))
           else (None, rotationCache))"

definition resolveAssignee ::
  "(string \<Rightarrow> string \<Rightarrow> int) \<Rightarrow> CandidateWorkload list \<Rightarrow> ServiceRequestSettings
     \<Rightarrow> string option \<Rightarrow> cache \<Rightarrow> CandidateWorkload option \<times> cache" where
  "resolveAssignee localeCompare candidates settings tenantId rotationCache =
     (if autoAssignStrategy settings = ''skill_based''
      then (selectSkillBased localeCompare candidates, rotationCache)
      else if autoAssignStrategy settings = ''round_robin''
      then selectRoundRobin localeCompare candidates tenantId rotationCache
      else (selectLoadBased localeCompare candidates, rotationCache))"

definition resolveAssignmentStatus :: "ServiceRequestSettings \<Rightarrow> string" where
  "resolveAssignmentStatus settings =
     (let preferred = defaultRequestStatus settings
      in if preferred = ''ASSIGNED'' \<or> preferred = ''IN_PROGRESS'' then preferred
         else ''ASSIGNED'')"

text \<open>
  The tables and the rotation cache the engine reads and writes, the notifications it has
  emitted, and what it reads only: the settings service (\<open>None\<close> where \<open>get\<close> throws),
  \<open>DEFAULT_SERVICES_SETTINGS.serviceRequests\<close>, whether multi-tenancy is enabled, whether
  the tenant-scoped team query is rejected, the clock, and the runtime's \<open>localeCompare\<close>.
\<close>

record AssignState =
  st_requests :: "ServiceRequest list"
  st_teamMembers :: "TeamMember list"
  st_services :: "Service list"
  st_rotationCache :: cache
  st_emitted :: "(string \<times> string) list"

record AssignEnv =
  env_settings :: "string option \<Rightarrow> ServiceRequestSettings option"
  env_DEFAULT_SETTINGS :: ServiceRequestSettings
  env_multiTenancy :: bool
  env_scopedQueryFails :: bool
  env_now :: instant
  env_localeCompare :: "string \<Rightarrow> string \<Rightarrow> int"

definition requestTenant :: "ServiceRequest \<Rightarrow> string option" where
  "requestTenant request = (if truthy (sr_tenantId request) then sr_tenantId request else None)"

definition loadSettings :: "AssignEnv \<Rightarrow> string option \<Rightarrow> ServiceRequestSettings" where
  "loadSettings env tenantId =
     (case env_settings env tenantId of Some s \<Rightarrow> s | None \<Rightarrow> env_DEFAULT_SETTINGS env)"

text \<open>
  Modelled from the spec: \<open>tenantFilter\<close> (\<open>@/lib/tenant\<close>) is not among the sources;
  the candidate pool and the workload count are "tenant-scoped when multi-tenancy is
  enabled", so the filter keeps the rows of the tenant.
\<close>

definition tenantScoped :: "AssignEnv \<Rightarrow> string option \<Rightarrow> string option \<Rightarrow> bool" where
  "tenantScoped env tenantId rowTenant =
     (if env_multiTenancy env \<and> tenantId \<noteq> None then rowTenant = tenantId else True)"

definition findTeamMembers :: "AssignEnv \<Rightarrow> AssignState \<Rightarrow> string option \<Rightarrow> TeamMember list" where
  "findTeamMembers env st tenantId =
     (if env_scopedQueryFails env
      then filter (\<lambda>m. tm_status m = ''active'' \<and> tm_isAvailable m) (st_teamMembers st)
      else filter (\<lambda>m. tm_status m = ''active'' \<and> tm_isAvailable m
                        \<and> tenantScoped env tenantId (tm_tenantId m)) (st_teamMembers st))"

definition requestCategory :: "AssignState \<Rightarrow> ServiceRequest \<Rightarrow> string option" where
  "requestCategory st request =
     (case sr_serviceId request of
        None \<Rightarrow> None
      | Some sid \<Rightarrow> (case findService (st_services st) sid of
                       None \<Rightarrow> None | Some svc \<Rightarrow> svc_category svc))"

definition workloadOf ::
  "AssignEnv \<Rightarrow> AssignState \<Rightarrow> string option \<Rightarrow> ServiceRequest \<Rightarrow> TeamMember \<Rightarrow> CandidateWorkload" where
  "workloadOf env st tenantId request member =
     \<lparr> tm = member,
       count = int (length (filter
                 (\<lambda>r. sr_assignedTeamMemberId r = Some (tm_id member)
                       \<and> sr_status r \<in> set ACTIVE_STATUSES
                       \<and> tenantScoped env tenantId (sr_tenantId r)) (st_requests st))),
       skillMatch = (if truthy (requestCategory st request)
                     then jsString (requestCategory st request)
                            \<in> set (case tm_specialties member of Some sp \<Rightarrow> sp | None \<Rightarrow> [])
                     else False) \<rparr>"

text \<open>\<open>prisma.service_requests.update\<close> on the row that \<open>findUnique\<close> returned.\<close>

fun updateFirst :: "('a \<Rightarrow> bool) \<Rightarrow> ('a \<Rightarrow> 'a) \<Rightarrow> 'a list \<Rightarrow> 'a list" where
  "updateFirst P f [] = []"
| "updateFirst P f (x # xs) = (if P x then f x # xs else x # updateFirst P f xs)"

definition assignTo :: "string \<Rightarrow> instant \<Rightarrow> string \<Rightarrow> ServiceRequest \<Rightarrow> ServiceRequest" where
  "assignTo memberId now statusForAssignment r =
     r \<lparr> sr_assignedTeamMemberId := Some memberId, sr_assignedAt := Some now,
         sr_status := statusForAssignment \<rparr>"

definition autoAssignServiceRequest ::
  "AssignEnv \<Rightarrow> AssignState \<Rightarrow> string \<Rightarrow> ServiceRequest option \<times> AssignState" where
  "autoAssignServiceRequest env st serviceRequestId =
     (case find (\<lambda>r. sr_id r = serviceRequestId) (st_requests st) of
        None \<Rightarrow> (None, st)
      | Some request \<Rightarrow>
        if truthy (sr_assignedTeamMemberId request) then (Some request, st)
        else
          let tenantId = requestTenant request;
              settings = loadSettings env tenantId
          in if \<not> autoAssign settings then (Some request, st)
             else
               let teamMembers = findTeamMembers env st tenantId
               in if length teamMembers = 0 then (Some request, st)
                  else
                    let workloads = map (workloadOf env st tenantId request) teamMembers
                    in (case resolveAssignee (env_localeCompare env) workloads settings tenantId
                                 (st_rotationCache st) of
                          (None, rotationCache') \<Rightarrow>
                            (Some request, st \<lparr> st_rotationCache := rotationCache' \<rparr>)
                        | (Some candidate, rotationCache') \<Rightarrow>
                            let statusForAssignment = resolveAssignmentStatus settings;
                                updated = assignTo (tm_id (tm candidate)) (env_now env)
                                            statusForAssignment request
                            in (Some updated,
                                st \<lparr> st_requests :=
                                       updateFirst (\<lambda>r. sr_id r = sr_id request)
                                         (assignTo (tm_id (tm candidate)) (env_now env)
                                            statusForAssignment) (st_requests st),
                                     st_rotationCache := rotationCache',
                                     st_emitted := st_emitted st
                                       @ [(sr_id updated, tm_id (tm candidate))] \<rparr>)))"

text \<open>
  \<open>n\<close> successive round-robin selections over one candidate pool, each reading the cache the
  previous one wrote: the candidates chosen, in order, and the final cache.
\<close>

fun roundRobinRun ::
  "nat \<Rightarrow> (string \<Rightarrow> string \<Rightarrow> int) \<Rightarrow> CandidateWorkload list \<Rightarrow> string option \<Rightarrow> cache
     \<Rightarrow> CandidateWorkload list \<times> cache" where
  "roundRobinRun 0 localeCompare candidates tenantId rotationCache = ([], rotationCache)"
| "roundRobinRun (Suc n) localeCompare candidates tenantId rotationCache =
     (case selectRoundRobin localeCompare candidates tenantId rotationCache of
        (None, rotationCache') \<Rightarrow> ([], rotationCache')
      | (Some chosen, rotationCache') \<Rightarrow>
          (case roundRobinRun n localeCompare candidates tenantId rotationCache' of
             (rest, rotationCache'') \<Rightarrow> (chosen # rest, rotationCache'')))"

section \<open>Example rows for the conflict detector\<close>

text \<open>
  An active service without buffer or daily cap, the same service capped at one booking a
  day, and an inactive one; instants are on 1970-01-01 in UTC.
\<close>

definition ex_svcOpen :: Service where
  "ex_svcOpen = \<lparr> svc_id = ''s1'', svc_tenantId = None, svc_category = Some ''Tax'',
     svc_status = Some ''ACTIVE'',
     svc_active = None, svc_bookingEnabled = None, svc_basePrice = Some 100, svc_price = None,
     svc_duration = Some 60, svc_bufferTime = Some 0, svc_maxDailyBookings = Some 0 \<rparr>"

definition ex_svcCapped :: Service where
  "ex_svcCapped = ex_svcOpen \<lparr> svc_maxDailyBookings := Some 1 \<rparr>"

definition ex_svcInactive :: Service where
  "ex_svcInactive = ex_svcOpen \<lparr> svc_status := Some ''INACTIVE'' \<rparr>"

text \<open>A confirmed booking 11:30--12:30 and a request for 10:30--11:30.\<close>

definition ex_bkTouch :: Booking where
  "ex_bkTouch = \<lparr> bk_id = ''t'', bk_serviceId = ''s1'', bk_status = CONFIRMED,
     bk_scheduledAt = 41400000, bk_duration = 60, bk_assignedTeamMemberId = None \<rparr>"

definition ex_prm :: CheckConflictParams where
  "ex_prm = \<lparr> p_serviceId = ''s1'', p_start = 37800000, p_durationMinutes = 60,
     p_excludeBookingId = None, p_teamMemberId = None, p_tenantId = None \<rparr>"

text \<open>
  A booking that starts at 22:30 the day before and lasts three hours, and a request for
  00:30--01:30 on 1970-01-02.
\<close>

definition ex_bkLate :: Booking where
  "ex_bkLate = \<lparr> bk_id = ''l'', bk_serviceId = ''s1'', bk_status = CONFIRMED,
     bk_scheduledAt = 81000000, bk_duration = 180, bk_assignedTeamMemberId = None \<rparr>"

definition ex_prmNextDay :: CheckConflictParams where
  "ex_prmNextDay = ex_prm \<lparr> p_start := 88200000 \<rparr>"

section \<open>Example rows for the pricing engine\<close>

text \<open>
  The service of the conflict examples costs 100.00; \<open>ex_svcFree\<close> is the same service
  at price 0. The instant is 2024-03-09T10:00Z, a Saturday.
\<close>

definition ex_svcFree :: Service where
  "ex_svcFree = ex_svcOpen \<lparr> svc_basePrice := Some 0 \<rparr>"

definition ex_env :: PricingEnv where
  "ex_env = \<lparr> env_services = [ex_svcOpen], env_organizationSettings = [],
     env_exchangeRates = [], env_EXCHANGE_BASE_CURRENCY = None \<rparr>"

definition ex_envFree :: PricingEnv where
  "ex_envFree = ex_env \<lparr> env_services := [ex_svcFree] \<rparr>"

definition ex_envInactive :: PricingEnv where
  "ex_envInactive = ex_env \<lparr> env_services := [ex_svcInactive] \<rparr>"

definition ex_ppSat :: PriceParams where
  "ex_ppSat = \<lparr> pp_serviceId = ''s1'', pp_scheduledAt = 1709978400000,
     pp_durationMinutes = Some 60, pp_options = None \<rparr>"






section \<open>Example rows for the assignment engine\<close>

text \<open>
  Three active, available team members; candidate b and candidate c carry one open
  request each, candidate a two.
\<close>

definition ex_tmA :: TeamMember where
  "ex_tmA = \<lparr> tm_id = ''a'', tm_name = ''Ann'', tm_email = None, tm_specialties = Some [''Audit''],
     tm_status = ''active'', tm_isAvailable = True, tm_tenantId = None \<rparr>"

definition ex_tmB :: TeamMember where
  "ex_tmB = ex_tmA \<lparr> tm_id := ''b'', tm_name := ''Bob'', tm_specialties := Some [''Tax''] \<rparr>"

definition ex_tmC :: TeamMember where
  "ex_tmC = ex_tmA \<lparr> tm_id := ''c'', tm_name := ''Cy'', tm_specialties := None \<rparr>"

definition ex_cwA :: CandidateWorkload where
  "ex_cwA = \<lparr> tm = ex_tmA, count = 2, skillMatch = False \<rparr>"

definition ex_cwB :: CandidateWorkload where
  "ex_cwB = \<lparr> tm = ex_tmB, count = 1, skillMatch = True \<rparr>"

definition ex_cwC :: CandidateWorkload where
  "ex_cwC = \<lparr> tm = ex_tmC, count = 1, skillMatch = False \<rparr>"

definition ex_pool :: "CandidateWorkload list" where
  "ex_pool = [ex_cwC, ex_cwA, ex_cwB]"

text \<open>Two candidates with one open request each, with the ids \<open>a\<close> and \<open>B\<close>.\<close>

definition ex_cwLowerA :: CandidateWorkload where
  "ex_cwLowerA = \<lparr> tm = ex_tmA, count = 1, skillMatch = False \<rparr>"

definition ex_cwUpperB :: CandidateWorkload where
  "ex_cwUpperB = \<lparr> tm = ex_tmA \<lparr> tm_id := ''B'', tm_name := ''Bea'' \<rparr>, count = 1,
     skillMatch = False \<rparr>"

definition ex_poolMixed :: "CandidateWorkload list" where
  "ex_poolMixed = [ex_cwLowerA, ex_cwUpperB]"

text \<open>
  A tenant-less deployment with auto-assignment on and the default strategy; one request
  that is already assigned to b and one that is open.
\<close>

definition ex_settings :: ServiceRequestSettings where
  "ex_settings = \<lparr> autoAssign = True, autoAssignStrategy = ''load_based'',
     defaultRequestStatus = ''ASSIGNED'' \<rparr>"

definition ex_aenv :: AssignEnv where
  "ex_aenv = \<lparr> env_settings = (\<lambda>_. Some ex_settings), env_DEFAULT_SETTINGS = ex_settings,
     env_multiTenancy = False, env_scopedQueryFails = False, env_now = 1709978400000,
     env_localeCompare = alnumCollate \<rparr>"

definition ex_reqAssigned :: ServiceRequest where
  "ex_reqAssigned = \<lparr> sr_id = ''r1'', sr_tenantId = None, sr_serviceId = Some ''s1'',
     sr_status = ''ASSIGNED'', sr_assignedTeamMemberId = Some ''b'', sr_assignedAt = Some 0 \<rparr>"

definition ex_reqOpen :: ServiceRequest where
  "ex_reqOpen = \<lparr> sr_id = ''r2'', sr_tenantId = None, sr_serviceId = Some ''s1'',
     sr_status = ''SUBMITTED'', sr_assignedTeamMemberId = None, sr_assignedAt = None \<rparr>"

definition ex_st :: AssignState where
  "ex_st = \<lparr> st_requests = [ex_reqAssigned, ex_reqOpen], st_teamMembers = [ex_tmA, ex_tmB, ex_tmC],
     st_services = [ex_svcOpen], st_rotationCache = Map.empty, st_emitted = [] \<rparr>"

section \<open>Properties of the conflict detector\<close>

lemma find_map_toBusy:
  "find (\<lambda>b. overlaps a e (busy_start b) (busy_end b)) (map (toBusy buf) xs) =
   map_option (toBusy buf)
     (find (\<lambda>b. overlaps a e (busy_start (toBusy buf b)) (busy_end (toBusy buf b))) xs)"
  by (induction xs) auto

lemma busy_id_toBusy: "busy_id (toBusy buf b) = bk_id b"
  by (simp add: toBusy_def)

text \<open>
  Past the service check and the daily cap, the answer is decided by the first fetched row
  whose buffer-expanded window overlaps the proposed one.
\<close>

lemma checkBookingConflict_clear:
  assumes "findService services (p_serviceId params) = Some s" "serviceBookable s"
    and "\<not> dailyCapReached (maxDailyOf s) tz (p_start params) (fetchedFor tz s bookings params)"
  shows "checkBookingConflict tz services bookings params =
     (case find (\<lambda>b. overlaps (p_start params)
                        (addMinutes (p_start params) (p_durationMinutes params))
                        (busy_start (toBusy (bufferOf s) b)) (busy_end (toBusy (bufferOf s) b)))
             (fetchedFor tz s bookings params) of
        Some c \<Rightarrow> conflictOf OVERLAP (Some (bk_id c)) None
      | None \<Rightarrow> noConflict)"
  using assms
  by (simp add: checkBookingConflict_def Let_def find_map_toBusy busy_id_toBusy
           split: option.splits)

lemma fetchedFor_filter:
  "fetchedFor tz s bookings params =
     filter (\<lambda>b. (if truthy (p_teamMemberId params)
                  then bk_assignedTeamMemberId b = p_teamMemberId params else True)
               \<and> (if truthy (p_excludeBookingId params)
                  then Some (bk_id b) \<noteq> p_excludeBookingId params else True))
       (filter (\<lambda>b. bk_serviceId b = p_serviceId params
                  \<and> (bk_status b = PENDING \<or> bk_status b = CONFIRMED)
                  \<and> windowStart tz (bufferOf s) (p_start params) \<le> bk_scheduledAt b
                  \<and> bk_scheduledAt b \<le> windowEnd tz (bufferOf s) (p_start params)) bookings)"
  unfolding fetchedFor_def findManyBookings_def filter_filter
  by (rule filter_cong) (auto simp: bookingMatches_def)

lemma ex_open_found: "findService [ex_svcOpen] (p_serviceId ex_prm) = Some ex_svcOpen"
  by code_simp

lemma ex_open_bookable: "serviceBookable ex_svcOpen"
  by code_simp

text \<open>
  Claim C1: whenever a pending or confirmed booking A of the service overlaps the
  proposed window after buffer expansion, and A is not the excluded booking, the detector
  is to answer \<open>conflict: true\<close>, reason \<open>OVERLAP\<close>, with the id of an overlapping
  booking. The code misses such a booking when it starts more than max(60, buffer)
  minutes before the proposed day: the query that is to fetch the potentially conflicting
  bookings selects on \<open>scheduledAt\<close> alone and leaves the row out. On the active service
  without buffer or daily cap, against the confirmed booking 22:30--01:30, the request
  for 00:30--01:30 on the next day is answered \<open>{conflict: false}\<close>.
\<close>

theorem C1_overlap_before_window_missed:
  "findService [ex_svcOpen] (p_serviceId ex_prmNextDay) = Some ex_svcOpen
   \<and> serviceBookable ex_svcOpen
   \<and> maxDailyOf ex_svcOpen = 0
   \<and> bk_serviceId ex_bkLate = p_serviceId ex_prmNextDay
   \<and> bk_status ex_bkLate = CONFIRMED
   \<and> p_excludeBookingId ex_prmNextDay = None
   \<and> p_teamMemberId ex_prmNextDay = None
   \<and> overlaps (p_start ex_prmNextDay)
         (addMinutes (p_start ex_prmNextDay) (p_durationMinutes ex_prmNextDay))
         (busy_start (toBusy (bufferOf ex_svcOpen) ex_bkLate))
         (busy_end (toBusy (bufferOf ex_svcOpen) ex_bkLate))
   \<and> bk_scheduledAt ex_bkLate < p_start ex_prmNextDay
   \<and> p_start ex_prmNextDay < addMinutes (bk_scheduledAt ex_bkLate) (bk_duration ex_bkLate)
   \<and> fetchedFor 0 ex_svcOpen [ex_bkLate] ex_prmNextDay = []
   \<and> checkBookingConflict 0 [ex_svcOpen] [ex_bkLate] ex_prmNextDay = noConflict
   \<and> \<not> conflict (checkBookingConflict 0 [ex_svcOpen] [ex_bkLate] ex_prmNextDay)"
  by code_simp

text \<open>
  Claim C3, as the code has it. The claim has touching windows never reported as a
  conflict, and every non-overlapping window on a service with no daily cap answered
  \<open>{conflict: false}\<close>. The service check and the daily cap come before the overlap
  test. On an active service capped at one booking a day, a request for 10:30--11:30
  against a stored booking 11:30--12:30 only touches it, and is answered
  \<open>conflict: true\<close>, reason \<open>DAILY_CAP\<close>. On an inactive service with no cap and no
  bookings the answer is \<open>conflict: true\<close>, reason \<open>SERVICE_INACTIVE\<close>.
\<close>

theorem C3_conflict_without_overlap:
  "serviceBookable ex_svcCapped
   \<and> addMinutes (p_start ex_prm) (p_durationMinutes ex_prm)
       = busy_start (toBusy (bufferOf ex_svcCapped) ex_bkTouch)
   \<and> \<not> overlaps (p_start ex_prm) (addMinutes (p_start ex_prm) (p_durationMinutes ex_prm))
         (busy_start (toBusy (bufferOf ex_svcCapped) ex_bkTouch))
         (busy_end (toBusy (bufferOf ex_svcCapped) ex_bkTouch))
   \<and> checkBookingConflict 0 [ex_svcCapped] [ex_bkTouch] ex_prm = conflictOf DAILY_CAP None (Some 1)
   \<and> conflict (checkBookingConflict 0 [ex_svcCapped] [ex_bkTouch] ex_prm)
   \<and> maxDailyOf ex_svcInactive = 0
   \<and> checkBookingConflict 0 [ex_svcInactive] [] ex_prm = conflictOf SERVICE_INACTIVE None None
   \<and> checkBookingConflict 0 [ex_svcInactive] [] ex_prm \<noteq> noConflict"
  by code_simp

text \<open>
  Claim C3, amended: on an active, booking-enabled service whose daily cap is not reached
  (in particular one with no daily cap), the detector reports \<open>OVERLAP\<close> if and only if
  some fetched candidate satisfies \<open>proposedStart < candidateEnd\<close> and
  \<open>candidateStart < proposedEnd\<close> for its buffer-expanded window; when every fetched
  candidate ends at or before the proposed start or starts at or after the proposed end,
  the result is \<open>{conflict: false}\<close>; windows that touch at a boundary do not overlap.
\<close>

theorem C3_overlap_iff:
  assumes svc: "findService services (p_serviceId params) = Some s" "serviceBookable s"
    and cap: "\<not> dailyCapReached (maxDailyOf s) tz (p_start params) (fetchedFor tz s bookings params)"
  shows "((\<exists>bid. checkBookingConflict tz services bookings params = conflictOf OVERLAP bid None) \<longleftrightarrow>
            (\<exists>b \<in> set (fetchedFor tz s bookings params).
                p_start params < busy_end (toBusy (bufferOf s) b)
              \<and> busy_start (toBusy (bufferOf s) b) < addMinutes (p_start params) (p_durationMinutes params)))
       \<and> ((\<forall>b \<in> set (fetchedFor tz s bookings params).
              addMinutes (p_start params) (p_durationMinutes params) \<le> busy_start (toBusy (bufferOf s) b)
            \<or> busy_end (toBusy (bufferOf s) b) \<le> p_start params) \<longrightarrow>
            checkBookingConflict tz services bookings params = noConflict)
       \<and> \<not> overlaps pStart pEnd pEnd cEnd \<and> \<not> overlaps pStart pEnd cStart pStart"
proof -
  let ?P = "\<lambda>b. overlaps (p_start params) (addMinutes (p_start params) (p_durationMinutes params))
               (busy_start (toBusy (bufferOf s) b)) (busy_end (toBusy (bufferOf s) b))"
  let ?F = "fetchedFor tz s bookings params"
  let ?R = "checkBookingConflict tz services bookings params"
  note R = checkBookingConflict_clear[OF svc cap]
  have touch: "\<not> overlaps pStart pEnd pEnd cEnd \<and> \<not> overlaps pStart pEnd cStart pStart"
    by (simp add: overlaps_def)
  show ?thesis
  proof (cases "find ?P ?F")
    case None
    then have no: "\<forall>b \<in> set ?F. \<not> ?P b" by (simp add: find_None_iff)
    from None R have "?R = noConflict" by simp
    with no touch show ?thesis
      by (auto simp: noConflict_def conflictOf_def overlaps_def)
  next
    case (Some c)
    then have c: "c \<in> set ?F" "?P c" by (auto simp: find_Some_iff)
    from Some R have r: "?R = conflictOf OVERLAP (Some (bk_id c)) None" by simp
    have 1: "\<exists>bid. ?R = conflictOf OVERLAP bid None" using r by blast
    have 2: "\<exists>b \<in> set ?F. p_start params < busy_end (toBusy (bufferOf s) b)
              \<and> busy_start (toBusy (bufferOf s) b) < addMinutes (p_start params) (p_durationMinutes params)"
      using c by (auto simp: overlaps_def)
    have 3: "\<not> (\<forall>b \<in> set ?F.
              addMinutes (p_start params) (p_durationMinutes params) \<le> busy_start (toBusy (bufferOf s) b)
            \<or> busy_end (toBusy (bufferOf s) b) \<le> p_start params)"
      using 2 by force
    show ?thesis using 1 2 3 touch by blast
  qed
qed

text \<open>
  The request 10:30--11:30 against a stored booking 11:30--12:30: the windows touch, and
  the detector reports no conflict.
\<close>

theorem C3_overlap_iff_witness:
  "addMinutes (p_start ex_prm) (p_durationMinutes ex_prm) = bk_scheduledAt ex_bkTouch
   \<and> checkBookingConflict 0 [ex_svcOpen] [ex_bkTouch] ex_prm = noConflict"
proof -
  have F: "fetchedFor 0 ex_svcOpen [ex_bkTouch] ex_prm = [ex_bkTouch]"
    by code_simp
  have cap: "\<not> dailyCapReached (maxDailyOf ex_svcOpen) 0 (p_start ex_prm)
                 (fetchedFor 0 ex_svcOpen [ex_bkTouch] ex_prm)"
    by code_simp
  have touch: "addMinutes (p_start ex_prm) (p_durationMinutes ex_prm) = bk_scheduledAt ex_bkTouch"
    by code_simp
  have apart: "addMinutes (p_start ex_prm) (p_durationMinutes ex_prm)
                 \<le> busy_start (toBusy (bufferOf ex_svcOpen) ex_bkTouch)"
    by code_simp
  have "\<forall>b \<in> set (fetchedFor 0 ex_svcOpen [ex_bkTouch] ex_prm).
              addMinutes (p_start ex_prm) (p_durationMinutes ex_prm)
                 \<le> busy_start (toBusy (bufferOf ex_svcOpen) b)
            \<or> busy_end (toBusy (bufferOf ex_svcOpen) b) \<le> p_start ex_prm"
    using apart by (simp add: F)
  with C3_overlap_iff[OF ex_open_found ex_open_bookable cap]
  have "checkBookingConflict 0 [ex_svcOpen] [ex_bkTouch] ex_prm = noConflict"
    by blast
  with touch show ?thesis by simp
qed

text \<open>
  Claim C10: the overlap and daily-cap decisions read the store only through the
  pending and confirmed bookings of the requested service whose \<open>scheduledAt\<close> lies in
  [start of the proposed day minus max(60, buffer) minutes, end of that day plus
  max(60, buffer) minutes]. Two stores that hold the same such bookings, in the same
  order, get the same answer, whatever else they hold.
\<close>

theorem C10_window_only:
  assumes agree: "\<And>s. findService services (p_serviceId params) = Some s \<Longrightarrow>
     filter (\<lambda>b. bk_serviceId b = p_serviceId params
                  \<and> (bk_status b = PENDING \<or> bk_status b = CONFIRMED)
                  \<and> windowStart tz (bufferOf s) (p_start params) \<le> bk_scheduledAt b
                  \<and> bk_scheduledAt b \<le> windowEnd tz (bufferOf s) (p_start params)) store1
   = filter (\<lambda>b. bk_serviceId b = p_serviceId params
                  \<and> (bk_status b = PENDING \<or> bk_status b = CONFIRMED)
                  \<and> windowStart tz (bufferOf s) (p_start params) \<le> bk_scheduledAt b
                  \<and> bk_scheduledAt b \<le> windowEnd tz (bufferOf s) (p_start params)) store2"
  shows "checkBookingConflict tz services store1 params = checkBookingConflict tz services store2 params"
proof (cases "findService services (p_serviceId params)")
  case None
  then show ?thesis by (simp add: checkBookingConflict_def)
next
  case (Some s)
  have "fetchedFor tz s store1 params = fetchedFor tz s store2 params"
    by (simp only: fetchedFor_filter agree[OF Some])
  with Some show ?thesis
    by (simp add: checkBookingConflict_def)
qed

text \<open>
  A store holding a three-hour booking from 22:30 the day before and the empty store give
  the same answer to a request for 00:30--01:30: the booking starts before the window.
\<close>

theorem C10_window_only_witness:
  "bk_scheduledAt ex_bkLate < windowStart 0 (bufferOf ex_svcOpen) (p_start ex_prmNextDay)
   \<and> checkBookingConflict 0 [ex_svcOpen] [ex_bkLate] ex_prmNextDay
     = checkBookingConflict 0 [ex_svcOpen] [] ex_prmNextDay"
proof -
  have out: "bk_scheduledAt ex_bkLate < windowStart 0 (bufferOf ex_svcOpen) (p_start ex_prmNextDay)"
    by code_simp
  have found: "findService [ex_svcOpen] (p_serviceId ex_prmNextDay) = Some s \<Longrightarrow> s = ex_svcOpen" for s
    by (simp add: findService_def ex_prmNextDay_def ex_prm_def ex_svcOpen_def)
  have "checkBookingConflict 0 [ex_svcOpen] [ex_bkLate] ex_prmNextDay
     = checkBookingConflict 0 [ex_svcOpen] [] ex_prmNextDay"
  proof (rule C10_window_only)
    fix s
    assume "findService [ex_svcOpen] (p_serviceId ex_prmNextDay) = Some s"
    then have s: "s = ex_svcOpen" by (rule found)
    show "filter (\<lambda>b. bk_serviceId b = p_serviceId ex_prmNextDay
                  \<and> (bk_status b = PENDING \<or> bk_status b = CONFIRMED)
                  \<and> windowStart 0 (bufferOf s) (p_start ex_prmNextDay) \<le> bk_scheduledAt b
                  \<and> bk_scheduledAt b \<le> windowEnd 0 (bufferOf s) (p_start ex_prmNextDay)) [ex_bkLate]
        = filter (\<lambda>b. bk_serviceId b = p_serviceId ex_prmNextDay
                  \<and> (bk_status b = PENDING \<or> bk_status b = CONFIRMED)
                  \<and> windowStart 0 (bufferOf s) (p_start ex_prmNextDay) \<le> bk_scheduledAt b
                  \<and> bk_scheduledAt b \<le> windowEnd 0 (bufferOf s) (p_start ex_prmNextDay)) []"
      using out unfolding s by simp
  qed
  with out show ?thesis by simp
qed

section \<open>Properties of the pricing engine\<close>

lemma foldl_amounts:
  "foldl (\<lambda>sum c. sum + amountCents c) a cs = a + sum_list (map amountCents cs)"
  by (induction cs arbitrary: a) auto

lemma sumAmounts_sum_list: "sumAmounts cs = sum_list (map amountCents cs)"
  by (simp add: sumAmounts_def foldl_amounts)

text \<open>The two return statements of a priced service, with the locals substituted.\<close>

lemma calculateServicePrice_priced:
  assumes "findService (env_services env) (pp_serviceId params) = Some svc" "\<not> serviceUnpriced svc"
  shows "calculateServicePrice tz env params =
     (let baseCurrency = resolveBaseCurrency env svc;
          targetCurrency = targetCurrencyOf (optionsOf params) baseCurrency;
          rate = (case latestRate (env_exchangeRates env) baseCurrency targetCurrency of
                    Some row \<Rightarrow> xr_rate row | None \<Rightarrow> 1)
      in if targetCurrency \<noteq> baseCurrency
         then \<lparr> currency = targetCurrency, baseCents = convertCents (baseCentsOf svc) rate,
                components = map (\<lambda>c. c \<lparr> amountCents := convertCents (amountCents c) rate \<rparr>)
                               (componentsFor tz svc params),
                subtotalCents = convertCents (baseCentsOf svc) rate,
                totalCents = convertCents (baseCentsOf svc) rate
                   + sum_list (map (\<lambda>c. convertCents (amountCents c) rate) (componentsFor tz svc params)) \<rparr>
         else \<lparr> currency = baseCurrency, baseCents = baseCentsOf svc,
                components = componentsFor tz svc params,
                subtotalCents = baseCentsOf svc,
                totalCents = baseCentsOf svc + sum_list (map amountCents (componentsFor tz svc params)) \<rparr>)"
  using assms
  by (simp add: calculateServicePrice_def Let_def sumAmounts_sum_list comp_def)

lemma codes_priced:
  assumes "findService (env_services env) (pp_serviceId params) = Some svc" "\<not> serviceUnpriced svc"
  shows "map code (components (calculateServicePrice tz env params))
           = map code (componentsFor tz svc params)"
  by (simp add: calculateServicePrice_priced[OF assms] Let_def comp_def)

lemma overage_codes: "c \<in> set (overageComponents b d sd) \<Longrightarrow> code c = ''OVERAGE''"
  by (auto simp: overageComponents_def Let_def split: if_splits)

lemma peak_codes: "c \<in> set (peakComponents tz t b opts) \<Longrightarrow> code c = ''PEAK''"
  by (auto simp: peakComponents_def Let_def split: if_splits)

lemma emergency_codes: "c \<in> set (emergencyComponents b opts) \<Longrightarrow> code c = ''EMERGENCY''"
  by (auto simp: emergencyComponents_def Let_def split: if_splits)

lemma weekend_codes:
  "''WEEKEND'' \<in> code ` set (weekendComponents tz t b opts)
     \<longleftrightarrow> weekendPctOf opts > 0 \<and> isWeekend tz t \<and> percentOf b (weekendPctOf opts) > 0"
  by (auto simp: weekendComponents_def Let_def)







lemma ex_env_found: "findService (env_services ex_env) (pp_serviceId ex_ppSat) = Some ex_svcOpen"
  by code_simp

lemma ex_open_priced: "\<not> serviceUnpriced ex_svcOpen"
  by code_simp

text \<open>
  Claim C2: on every path (missing or inactive service, same currency, converted
  currency) the returned breakdown has
  \<open>totalCents = subtotalCents + sum of the components' amountCents\<close>.
\<close>

theorem C2_total_is_subtotal_plus_components:
  "totalCents (calculateServicePrice tz env params)
     = subtotalCents (calculateServicePrice tz env params)
       + sum_list (map amountCents (components (calculateServicePrice tz env params)))"
  by (simp add: calculateServicePrice_def zeroBreakdown_def Let_def sumAmounts_sum_list
           split: option.splits)

text \<open>
  Claim C4: when the service id resolves to no stored service, or to a service whose
  status is set and is not \<open>ACTIVE\<close> (compared in upper case), or to a service with no
  status whose \<open>active\<close> flag is false, the engine returns the zero breakdown: USD,
  \<open>baseCents = 0\<close>, no components, \<open>subtotalCents = 0\<close>, \<open>totalCents = 0\<close>. The model
  returns a value on every input, so nothing is raised.
\<close>

theorem C4_missing_or_inactive_is_zero:
  assumes "findService (env_services env) (pp_serviceId params) = None
         \<or> (\<exists>svc. findService (env_services env) (pp_serviceId params) = Some svc
               \<and> ((truthy (svc_status svc) \<and> toUpperCase (jsString (svc_status svc)) \<noteq> ''ACTIVE'')
                  \<or> (\<not> truthy (svc_status svc) \<and> svc_active svc = Some False)))"
  shows "calculateServicePrice tz env params
           = \<lparr> currency = ''USD'', baseCents = 0, components = [], subtotalCents = 0, totalCents = 0 \<rparr>"
  using assms
  by (auto simp: calculateServicePrice_def zeroBreakdown_def serviceUnpriced_def)

theorem C4_missing_or_inactive_is_zero_witness:
  "calculateServicePrice 0 ex_envInactive ex_ppSat
     = \<lparr> currency = ''USD'', baseCents = 0, components = [], subtotalCents = 0, totalCents = 0 \<rparr>
   \<and> calculateServicePrice 0 (ex_env \<lparr> env_services := [] \<rparr>) ex_ppSat
     = \<lparr> currency = ''USD'', baseCents = 0, components = [], subtotalCents = 0, totalCents = 0 \<rparr>"
proof -
  have f: "findService (env_services ex_envInactive) (pp_serviceId ex_ppSat) = Some ex_svcInactive"
    by code_simp
  have i: "truthy (svc_status ex_svcInactive)
           \<and> toUpperCase (jsString (svc_status ex_svcInactive)) \<noteq> ''ACTIVE''"
    by code_simp
  have m: "findService (env_services (ex_env \<lparr> env_services := [] \<rparr>)) (pp_serviceId ex_ppSat) = None"
    by (simp add: findService_def)
  from f i have h: "findService (env_services ex_envInactive) (pp_serviceId ex_ppSat) = None
         \<or> (\<exists>svc. findService (env_services ex_envInactive) (pp_serviceId ex_ppSat) = Some svc
               \<and> ((truthy (svc_status svc) \<and> toUpperCase (jsString (svc_status svc)) \<noteq> ''ACTIVE'')
                  \<or> (\<not> truthy (svc_status svc) \<and> svc_active svc = Some False)))"
    by blast
  show ?thesis
    using C4_missing_or_inactive_is_zero[OF h, of 0]
          C4_missing_or_inactive_is_zero[OF disjI1, OF m, of 0]
    by simp
qed

text \<open>
  Claim C6, as the code has it. The claim puts a \<open>WEEKEND\<close> component in the breakdown
  whenever the instant is on a weekend and the percent is positive. The engine pushes the
  component only when the rounded surcharge is positive: a free service priced on a
  Saturday at the default 15 percent has no \<open>WEEKEND\<close> component.
\<close>

theorem C6_free_service_has_no_weekend_component:
  "isWeekend 0 (pp_scheduledAt ex_ppSat)
   \<and> weekendPctOf (optionsOf ex_ppSat) = 15 / 100
   \<and> weekendPctOf (optionsOf ex_ppSat) > 0
   \<and> ''WEEKEND'' \<notin> set (map code (components (calculateServicePrice 0 ex_envFree ex_ppSat)))"
  by code_simp

text \<open>
  Claim C6, amended: for a priced (found and active) service and a promotion that is not
  itself coded \<open>WEEKEND\<close>, the breakdown contains a component with code \<open>WEEKEND\<close> if and
  only if the local weekday of \<open>scheduledAt\<close> is Saturday or Sunday, the configured
  weekend percent (default 0.15) is positive, and the surcharge rounded to the cent,
  round(baseCents * percent), is positive.
\<close>

theorem C6_weekend_component_iff:
  assumes svc: "findService (env_services env) (pp_serviceId params) = Some svc"
               "\<not> serviceUnpriced svc"
    and promo: "\<forall>c \<in> set (promoComponents (pp_serviceId params) (optionsOf params)).
                  code c \<noteq> ''WEEKEND''"
  shows "''WEEKEND'' \<in> set (map code (components (calculateServicePrice tz env params)))
         \<longleftrightarrow> (getDay tz (pp_scheduledAt params) = 6 \<or> getDay tz (pp_scheduledAt params) = 0)
             \<and> weekendPctOf (optionsOf params) > 0
             \<and> percentOf (baseCentsOf svc) (weekendPctOf (optionsOf params)) > 0"
proof -
  have "''WEEKEND'' \<in> set (map code (componentsFor tz svc params))
        \<longleftrightarrow> ''WEEKEND'' \<in> code ` set (weekendComponents tz (pp_scheduledAt params)
                                  (baseCentsOf svc) (optionsOf params))"
    using promo
    by (auto simp: componentsFor_def Let_def dest: overage_codes peak_codes emergency_codes)
  then show ?thesis
    by (simp only: codes_priced[OF svc] weekend_codes isWeekend_def Let_def) blast
qed

theorem C6_weekend_component_iff_witness:
  "''WEEKEND'' \<in> set (map code (components (calculateServicePrice 0 ex_env ex_ppSat)))"
proof -
  have promo: "\<forall>c \<in> set (promoComponents (pp_serviceId ex_ppSat) (optionsOf ex_ppSat)).
                  code c \<noteq> ''WEEKEND''"
  proof -
    have "promoComponents (pp_serviceId ex_ppSat) (optionsOf ex_ppSat) = []"
      by code_simp
    then show ?thesis by simp
  qed
  have rhs: "(getDay 0 (pp_scheduledAt ex_ppSat) = 6 \<or> getDay 0 (pp_scheduledAt ex_ppSat) = 0)
             \<and> weekendPctOf (optionsOf ex_ppSat) > 0
             \<and> percentOf (baseCentsOf ex_svcOpen) (weekendPctOf (optionsOf ex_ppSat)) > 0"
    by code_simp
  show ?thesis
    using C6_weekend_component_iff[OF ex_env_found ex_open_priced promo, of 0] rhs by blast
qed



section \<open>Properties of the assignment engine\<close>

lemma set_insertWith: "set (insertWith cmp x ys) = insert x (set ys)"
  by (induction ys) auto

lemma set_sortWith: "set (sortWith cmp xs) = set xs"
  by (induction xs) (auto simp: set_insertWith)

lemma length_insertWith: "length (insertWith cmp x ys) = Suc (length ys)"
  by (induction ys) auto

lemma length_sortWith: "length (sortWith cmp xs) = length xs"
  by (induction xs) (auto simp: length_insertWith)

lemma distinct_map_insertWith:
  "distinct (map f (insertWith cmp x ys)) \<longleftrightarrow> f x \<notin> f ` set ys \<and> distinct (map f ys)"
  by (induction ys) (auto simp: set_insertWith)

lemma distinct_map_sortWith: "distinct (map f (sortWith cmp xs)) = distinct (map f xs)"
  by (induction xs) (auto simp: distinct_map_insertWith set_sortWith)

lemma consistentComparatorD:
  assumes "consistentComparator cmp"
  shows "cmp a b \<le> 0 \<or> cmp b a \<le> 0"
    and "cmp a b \<le> 0 \<Longrightarrow> cmp b c \<le> 0 \<Longrightarrow> cmp a c \<le> 0"
  using assms unfolding consistentComparator_def by blast+

text \<open>Under a total and transitive comparator the sorted copy is in ascending order.\<close>

lemma sorted_wrt_insertWith:
  assumes total: "\<And>a b. cmp a b \<le> 0 \<or> cmp b a \<le> 0"
    and trans: "\<And>a b c. cmp a b \<le> 0 \<Longrightarrow> cmp b c \<le> 0 \<Longrightarrow> cmp a c \<le> 0"
  shows "sorted_wrt (\<lambda>a b. cmp a b \<le> 0) ys \<Longrightarrow> sorted_wrt (\<lambda>a b. cmp a b \<le> 0) (insertWith cmp x ys)"
proof (induction ys)
  case Nil
  then show ?case by simp
next
  case (Cons y ys)
  from Cons.prems have y: "\<forall>z \<in> set ys. cmp y z \<le> 0" and s: "sorted_wrt (\<lambda>a b. cmp a b \<le> 0) ys"
    by simp_all
  show ?case
  proof (cases "cmp x y \<le> 0")
    case True
    have "cmp x z \<le> 0" if "z \<in> set ys" for z
      using trans[OF True] y that by blast
    with True Cons.prems show ?thesis by simp
  next
    case False
    with total[of x y] have "cmp y x \<le> 0" by simp
    with y have "\<forall>z \<in> set (insertWith cmp x ys). cmp y z \<le> 0"
      by (simp add: set_insertWith)
    with False Cons.IH[OF s] show ?thesis by simp
  qed
qed

lemma sorted_wrt_sortWith:
  assumes total: "\<And>a b. cmp a b \<le> 0 \<or> cmp b a \<le> 0"
    and trans: "\<And>a b c. cmp a b \<le> 0 \<Longrightarrow> cmp b c \<le> 0 \<Longrightarrow> cmp a c \<le> 0"
  shows "sorted_wrt (\<lambda>a b. cmp a b \<le> 0) (sortWith cmp xs)"
proof (induction xs)
  case Nil
  then show ?case by simp
next
  case (Cons x xs)
  show ?case
    using sorted_wrt_insertWith[of cmp "sortWith cmp xs" x, OF total trans Cons.IH]
    by simp
qed

lemma sorted_wrt_sortWith_id:
  assumes "consistentComparator lc"
  shows "sorted_wrt (\<lambda>a b. lc (tm_id (tm a)) (tm_id (tm b)) \<le> 0) (sortWith (idCompare lc) xs)"
proof -
  have "sorted_wrt (\<lambda>a b. idCompare lc a b \<le> 0) (sortWith (idCompare lc) xs)"
  proof (rule sorted_wrt_sortWith)
    show "idCompare lc a b \<le> 0 \<or> idCompare lc b a \<le> 0" for a b
      unfolding idCompare_def by (rule consistentComparatorD(1)[OF assms])
    show "idCompare lc a b \<le> 0 \<Longrightarrow> idCompare lc b c \<le> 0 \<Longrightarrow> idCompare lc a c \<le> 0" for a b c
      unfolding idCompare_def by (rule consistentComparatorD(2)[OF assms])
  qed
  then show ?thesis by (simp add: idCompare_def)
qed

lemma hd_sortWith_min:
  assumes total: "\<And>a b. cmp a b \<le> 0 \<or> cmp b a \<le> 0"
    and trans: "\<And>a b c. cmp a b \<le> 0 \<Longrightarrow> cmp b c \<le> 0 \<Longrightarrow> cmp a c \<le> 0"
  shows "xs \<noteq> [] \<Longrightarrow>
         \<exists>h t. sortWith cmp xs = h # t \<and> h \<in> set xs \<and> (\<forall>d \<in> set xs. cmp h d \<le> 0)"
proof (induction xs)
  case Nil
  then show ?case by simp
next
  case (Cons x xs)
  have refl: "cmp x x \<le> 0" using total[of x x] by simp
  show ?case
  proof (cases "xs = []")
    case True
    then show ?thesis using refl by simp
  next
    case False
    with Cons.IH obtain h t where ht: "sortWith cmp xs = h # t" "h \<in> set xs"
      "\<forall>d \<in> set xs. cmp h d \<le> 0" by blast
    show ?thesis
    proof (cases "cmp x h \<le> 0")
      case True
      have "cmp x d \<le> 0" if "d \<in> set xs" for d
        using trans[OF True] ht(3) that by blast
      with refl have "\<forall>d \<in> set (x # xs). cmp x d \<le> 0" by simp
      moreover have "sortWith cmp (x # xs) = x # h # t"
        using True ht(1) by simp
      ultimately show ?thesis by simp
    next
      case False
      with total[of x h] have "cmp h x \<le> 0" by simp
      with ht(3) have "\<forall>d \<in> set (x # xs). cmp h d \<le> 0" by simp
      moreover have "sortWith cmp (x # xs) = h # insertWith cmp x t"
        using False ht(1) by simp
      moreover have "h \<in> set (x # xs)" using ht(2) by simp
      ultimately show ?thesis by blast
    qed
  qed
qed

lemma loadCompare_le:
  "loadCompare lc a b \<le> 0 \<longleftrightarrow>
     count a < count b \<or> (count a = count b \<and> lc (tm_id (tm a)) (tm_id (tm b)) \<le> 0)"
  by (auto simp: loadCompare_def)

lemma sortWith_hd:
  assumes "xs \<noteq> []"
  shows "\<exists>h t. sortWith cmp xs = h # t \<and> h \<in> set xs"
proof (cases "sortWith cmp xs")
  case Nil
  with assms length_sortWith[of cmp xs] show ?thesis by simp
next
  case (Cons h t)
  then have "h \<in> set (sortWith cmp xs)" by simp
  then have "h \<in> set xs" by (simp only: set_sortWith)
  with Cons show ?thesis by simp
qed

lemma selectLoadBased_some:
  assumes "candidates \<noteq> []"
  shows "\<exists>c \<in> set candidates. selectLoadBased lc candidates = Some c"
  using assms sortWith_hd[OF assms, of "loadCompare lc"]
  by (auto simp: selectLoadBased_def)

lemma selectLoadBased_min:
  assumes ne: "candidates \<noteq> []" and lc: "consistentComparator lc"
  shows "\<exists>c. selectLoadBased lc candidates = Some c \<and> c \<in> set candidates
           \<and> (\<forall>d \<in> set candidates. loadCompare lc c d \<le> 0)"
proof -
  have "\<exists>h t. sortWith (loadCompare lc) candidates = h # t \<and> h \<in> set candidates
               \<and> (\<forall>d \<in> set candidates. loadCompare lc h d \<le> 0)"
  proof (rule hd_sortWith_min[OF _ _ ne])
    show "loadCompare lc a b \<le> 0 \<or> loadCompare lc b a \<le> 0" for a b
      using consistentComparatorD(1)[OF lc, of "tm_id (tm a)" "tm_id (tm b)"]
      unfolding loadCompare_le by linarith
    show "loadCompare lc a c \<le> 0"
      if ab: "loadCompare lc a b \<le> 0" and bc: "loadCompare lc b c \<le> 0" for a b c
    proof (cases "count a < count c")
      case True
      then show ?thesis by (simp add: loadCompare_le)
    next
      case False
      with ab bc have eq: "count a = count b" "count b = count c"
        and ids: "lc (tm_id (tm a)) (tm_id (tm b)) \<le> 0" "lc (tm_id (tm b)) (tm_id (tm c)) \<le> 0"
        unfolding loadCompare_le by linarith+
      from consistentComparatorD(2)[OF lc ids] eq show ?thesis
        by (simp add: loadCompare_le)
    qed
  qed
  then show ?thesis
    using ne by (auto simp: selectLoadBased_def)
qed

lemma findIndex_bounds: "- 1 \<le> findIndex P xs \<and> findIndex P xs < int (length xs)"
  by (induction xs) (auto simp: Let_def)

lemma findIndex_none: "(\<forall>x \<in> set xs. \<not> P x) \<Longrightarrow> findIndex P xs = - 1"
  by (induction xs) (auto simp: Let_def)

lemma findIndex_nth:
  "distinct (map f xs) \<Longrightarrow> i < length xs \<Longrightarrow> findIndex (\<lambda>e. f e = f (xs ! i)) xs = int i"
proof (induction xs arbitrary: i)
  case Nil
  then show ?case by simp
next
  case (Cons x xs)
  show ?case
  proof (cases i)
    case 0
    then show ?thesis by simp
  next
    case (Suc j)
    with Cons.prems have j: "j < length xs" and d: "distinct (map f xs)"
      and nx: "f x \<noteq> f (xs ! j)" by auto
    from Cons.IH[OF d j] nx Suc show ?thesis by (simp add: Let_def)
  qed
qed

lemma nextIndex_bounds:
  assumes "ordered \<noteq> []"
  shows "0 \<le> nextIndex ordered lastId \<and> nat (nextIndex ordered lastId) < length ordered"
proof -
  have "0 < int (length ordered)" using assms by simp
  then show ?thesis
    by (auto simp: nextIndex_def Let_def nat_less_iff)
qed

lemma nextIndex_hit:
  assumes "distinct (map (\<lambda>c. tm_id (tm c)) ordered)" "i < length ordered"
    and "tm_id (tm (ordered ! i)) \<noteq> []"
  shows "nextIndex ordered (Some (tm_id (tm (ordered ! i)))) = int ((i + 1) mod length ordered)"
proof -
  have "findIndex (\<lambda>entry. Some (tm_id (tm entry)) = Some (tm_id (tm (ordered ! i)))) ordered = int i"
    using findIndex_nth[OF assms(1,2)] by simp
  then show ?thesis
    using assms(3) by (simp add: nextIndex_def truthy_def zmod_int add.commute)
qed

lemma nextIndex_miss:
  assumes "lastId = None \<or> (\<forall>e \<in> set ordered. Some (tm_id (tm e)) \<noteq> lastId)"
  shows "nextIndex ordered lastId = 0"
  using assms findIndex_none[of ordered "\<lambda>entry. Some (tm_id (tm entry)) = lastId"]
  by (auto simp: nextIndex_def truthy_def)

lemma selectRoundRobin_step:
  assumes "candidates \<noteq> []"
  shows "selectRoundRobin lc candidates tenantId rc =
     (Some (sortWith (idCompare lc) candidates
              ! nat (nextIndex (sortWith (idCompare lc) candidates) (rc (rotationKey tenantId)))),
      rc(rotationKey tenantId \<mapsto>
           tm_id (tm (sortWith (idCompare lc) candidates
              ! nat (nextIndex (sortWith (idCompare lc) candidates) (rc (rotationKey tenantId)))))))"
proof -
  have ne: "sortWith (idCompare lc) candidates \<noteq> []"
    using assms length_sortWith[of "idCompare lc" candidates] by auto
  show ?thesis
    using assms nextIndex_bounds[OF ne]
    by (simp add: selectRoundRobin_def Let_def cacheGet_def cacheSet_def)
qed

lemma upt_Suc_shift: "map f [0..<Suc n] = f 0 # map (\<lambda>k. f (Suc k)) [0..<n]"
  by (simp add: upt_conv_Cons map_Suc_upt[symmetric] comp_def del: upt_Suc)

text \<open>Once the cache holds the id at position i, the next n picks walk on from i.\<close>

lemma roundRobinRun_from:
  assumes ne: "candidates \<noteq> []"
    and dist: "distinct (map (\<lambda>c. tm_id (tm c)) candidates)"
    and ids: "\<forall>c \<in> set candidates. tm_id (tm c) \<noteq> []"
    and i: "i < length candidates"
    and rc: "rc (rotationKey tenantId) = Some (tm_id (tm (sortWith (idCompare lc) candidates ! i)))"
  shows "fst (roundRobinRun n lc candidates tenantId rc)
           = map (\<lambda>k. sortWith (idCompare lc) candidates ! ((i + 1 + k) mod length candidates)) [0..<n]"
  using i rc
proof (induction n arbitrary: i rc)
  case 0
  then show ?case by simp
next
  case (Suc n)
  let ?o = "sortWith (idCompare lc) candidates"
  let ?N = "length candidates"
  let ?j = "(i + 1) mod ?N"
  have len: "length ?o = ?N" by (rule length_sortWith)
  have N: "0 < ?N" using ne by simp
  have d: "distinct (map (\<lambda>c. tm_id (tm c)) ?o)"
    using dist by (simp add: distinct_map_sortWith)
  have io: "i < length ?o" using Suc.prems(1) len by simp
  have idne: "tm_id (tm (?o ! i)) \<noteq> []"
    using ids io nth_mem[OF io] by (simp add: set_sortWith)
  have nx: "nextIndex ?o (rc (rotationKey tenantId)) = int ?j"
    using nextIndex_hit[OF d io idne] Suc.prems(2) len by simp
  have j: "?j < ?N" using N by simp
  let ?rc' = "rc(rotationKey tenantId \<mapsto> tm_id (tm (?o ! ?j)))"
  have step: "selectRoundRobin lc candidates tenantId rc = (Some (?o ! ?j), ?rc')"
    using selectRoundRobin_step[OF ne, where lc = lc and tenantId = tenantId and rc = rc] nx by simp
  have rc': "?rc' (rotationKey tenantId) = Some (tm_id (tm (?o ! ?j)))" by simp
  have IH: "fst (roundRobinRun n lc candidates tenantId ?rc')
              = map (\<lambda>k. ?o ! ((?j + 1 + k) mod ?N)) [0..<n]"
    by (rule Suc.IH[of ?j ?rc', OF j rc'])
  have shift: "(?j + 1 + k) mod ?N = (i + 1 + Suc k) mod ?N" for k
  proof -
    have "(?j + (1 + k)) mod ?N = ((i + 1) + (1 + k)) mod ?N"
      by (rule mod_add_left_eq)
    then show ?thesis by (simp add: add.assoc)
  qed
  have "fst (roundRobinRun (Suc n) lc candidates tenantId rc)
          = ?o ! ?j # fst (roundRobinRun n lc candidates tenantId ?rc')"
    by (simp add: step split: prod.splits)
  also have "\<dots> = ?o ! ((i + 1 + 0) mod ?N) # map (\<lambda>k. ?o ! ((i + 1 + Suc k) mod ?N)) [0..<n]"
    by (simp only: IH shift) simp
  also have "\<dots> = map (\<lambda>k. ?o ! ((i + 1 + k) mod ?N)) [0..<Suc n]"
    by (rule upt_Suc_shift[symmetric])
  finally show ?case .
qed

lemma roundRobinRun_rotate:
  assumes ne: "candidates \<noteq> []"
    and dist: "distinct (map (\<lambda>c. tm_id (tm c)) candidates)"
    and ids: "\<forall>c \<in> set candidates. tm_id (tm c) \<noteq> []"
  shows "fst (roundRobinRun (length candidates) lc candidates tenantId rc)
           = rotate (nat (nextIndex (sortWith (idCompare lc) candidates) (rc (rotationKey tenantId))))
               (sortWith (idCompare lc) candidates)"
proof -
  let ?o = "sortWith (idCompare lc) candidates"
  let ?N = "length candidates"
  let ?j = "nat (nextIndex ?o (rc (rotationKey tenantId)))"
  let ?rc' = "rc(rotationKey tenantId \<mapsto> tm_id (tm (?o ! ?j)))"
  have len: "length ?o = ?N" by (rule length_sortWith)
  have one: "?o \<noteq> []" using ne len by auto
  have j: "?j < ?N" using nextIndex_bounds[OF one] len by simp
  obtain m where N: "?N = Suc m" using ne by (cases candidates) auto
  have step: "selectRoundRobin lc candidates tenantId rc = (Some (?o ! ?j), ?rc')"
    by (rule selectRoundRobin_step[OF ne, where lc = lc and tenantId = tenantId and rc = rc])
  have rc': "?rc' (rotationKey tenantId) = Some (tm_id (tm (?o ! ?j)))" by simp
  have rest: "fst (roundRobinRun m lc candidates tenantId ?rc')
                = map (\<lambda>k. ?o ! ((?j + 1 + k) mod ?N)) [0..<m]"
    by (rule roundRobinRun_from[where rc = ?rc' and i = ?j, OF ne dist ids j rc'])
  have "fst (roundRobinRun (Suc m) lc candidates tenantId rc)
          = ?o ! ?j # fst (roundRobinRun m lc candidates tenantId ?rc')"
    by (simp add: step split: prod.splits)
  also have "\<dots> = ?o ! ((?j + 0) mod ?N) # map (\<lambda>k. ?o ! ((?j + Suc k) mod ?N)) [0..<m]"
    using j by (simp add: rest)
  also have "\<dots> = map (\<lambda>k. ?o ! ((?j + k) mod ?N)) [0..<Suc m]"
    by (rule upt_Suc_shift[symmetric])
  finally have picks: "fst (roundRobinRun ?N lc candidates tenantId rc)
                         = map (\<lambda>k. ?o ! ((?j + k) mod ?N)) [0..<?N]"
    by (simp only: N)
  have "map (\<lambda>k. ?o ! ((?j + k) mod ?N)) [0..<?N] = rotate ?j ?o"
    by (rule nth_equalityI) (simp_all add: len nth_rotate)
  with picks show ?thesis by simp
qed

lemma selectSkillBased_some:
  assumes "candidates \<noteq> []"
  shows "\<exists>c \<in> set candidates. selectSkillBased lc candidates = Some c"
proof (cases "filter skillMatch candidates = []")
  case True
  with assms selectLoadBased_some[OF assms, where lc = lc] show ?thesis
    by (simp add: selectSkillBased_def)
next
  case False
  from selectLoadBased_some[OF False, where lc = lc] obtain c where
    "c \<in> set (filter skillMatch candidates)" "selectLoadBased lc (filter skillMatch candidates) = Some c"
    by blast
  with assms False show ?thesis
    by (auto simp: selectSkillBased_def Let_def)
qed

lemma selectRoundRobin_some:
  assumes "candidates \<noteq> []"
  shows "\<exists>c \<in> set candidates. \<exists>rc'. selectRoundRobin lc candidates tenantId rc = (Some c, rc')"
proof -
  let ?o = "sortWith (idCompare lc) candidates"
  have ne: "?o \<noteq> []" using assms length_sortWith[of "idCompare lc" candidates] by auto
  have "?o ! nat (nextIndex ?o (rc (rotationKey tenantId))) \<in> set ?o"
    using nextIndex_bounds[OF ne] by simp
  then have "?o ! nat (nextIndex ?o (rc (rotationKey tenantId))) \<in> set candidates"
    by (simp add: set_sortWith)
  with selectRoundRobin_step[OF assms, where lc = lc and tenantId = tenantId and rc = rc] show ?thesis by blast
qed

lemma resolveAssignee_some:
  assumes "candidates \<noteq> []"
  shows "\<exists>c \<in> set candidates. \<exists>rc'. resolveAssignee lc candidates settings tenantId rc = (Some c, rc')"
  using selectLoadBased_some[OF assms, where lc = lc] selectSkillBased_some[OF assms, where lc = lc]
        selectRoundRobin_some[OF assms, where lc = lc and tenantId = tenantId and rc = rc]
  by (auto simp: resolveAssignee_def)

lemma alnumCollate_le:
  "alnumCollate a b \<le> 0 \<longleftrightarrow>
     toLowerCase a < toLowerCase b \<or> (toLowerCase a = toLowerCase b \<and> b \<le> a)"
  by (auto simp: alnumCollate_def)

lemma alnumCollate_consistent: "consistentComparator alnumCollate"
proof -
  have total: "alnumCollate a b \<le> 0 \<or> alnumCollate b a \<le> 0" for a b
    unfolding alnumCollate_le by auto
  have trans: "alnumCollate a c \<le> 0"
    if ab: "alnumCollate a b \<le> 0" and bc: "alnumCollate b c \<le> 0" for a b c
  proof (cases "toLowerCase a < toLowerCase c")
    case True
    then show ?thesis by (simp add: alnumCollate_le)
  next
    case False
    from ab bc have le: "toLowerCase a \<le> toLowerCase b" "toLowerCase b \<le> toLowerCase c"
      unfolding alnumCollate_le by auto
    with False have eq: "toLowerCase a = toLowerCase b" "toLowerCase b = toLowerCase c"
      by auto
    with ab bc have "b \<le> a" "c \<le> b" unfolding alnumCollate_le by auto
    then have "c \<le> a" by (rule order_trans[rotated])
    with eq show ?thesis by (simp add: alnumCollate_le)
  qed
  show ?thesis
    unfolding consistentComparator_def using total trans by blast
qed


text \<open>
  Claim C5, as the code has it. The claim has ties on the workload resolved to the id
  that is smallest in ascending lexicographic order. The code breaks ties with
  \<open>localeCompare\<close>, the locale's collation, in which \<open>a\<close> sorts before \<open>B\<close>: of the
  candidates \<open>a\<close> and \<open>B\<close> with one request each it returns \<open>a\<close>, while \<open>B\<close> is the
  smaller id character by character.
\<close>

theorem C5_tie_goes_to_collation_order:
  "selectLoadBased alnumCollate ex_poolMixed = Some ex_cwLowerA
   \<and> ex_cwUpperB \<in> set ex_poolMixed
   \<and> count ex_cwUpperB = count ex_cwLowerA
   \<and> tm_id (tm ex_cwLowerA) = ''a'' \<and> tm_id (tm ex_cwUpperB) = ''B''
   \<and> alnumCollate ''a'' ''B'' = - 1
   \<and> tm_id (tm ex_cwUpperB) < tm_id (tm ex_cwLowerA)
   \<and> \<not> tm_id (tm ex_cwLowerA) \<le> tm_id (tm ex_cwUpperB)"
  by code_simp

text \<open>
  Claim C5, amended: on a non-empty pool, with \<open>localeCompare\<close> a consistent comparator,
  load-based selection returns a candidate of the pool whose workload count is at most
  every candidate's, and which \<open>localeCompare\<close> puts before or level with every
  candidate of that count: the tie goes to the smallest id in the locale's collation
  order. Where that order agrees with the lexicographic order on the ids of the pool, as
  it does on ids of digits and lower-case letters, this is the smallest id in ascending
  lexicographic order.
\<close>

theorem C5_load_based_minimal:
  assumes ne: "candidates \<noteq> []" and lc: "consistentComparator lc"
  shows "\<exists>c. selectLoadBased lc candidates = Some c
           \<and> c \<in> set candidates
           \<and> (\<forall>d \<in> set candidates. count c \<le> count d)
           \<and> (\<forall>d \<in> set candidates. count d = count c \<longrightarrow> lc (tm_id (tm c)) (tm_id (tm d)) \<le> 0)
           \<and> ((\<forall>d \<in> set candidates. \<forall>e \<in> set candidates.
                  (lc (tm_id (tm d)) (tm_id (tm e)) \<le> 0) = (tm_id (tm d) \<le> tm_id (tm e)))
                \<longrightarrow> (\<forall>d \<in> set candidates. count d = count c \<longrightarrow> tm_id (tm c) \<le> tm_id (tm d)))"
proof -
  from selectLoadBased_min[OF ne lc] obtain c where c: "selectLoadBased lc candidates = Some c"
    "c \<in> set candidates" "\<forall>d \<in> set candidates. loadCompare lc c d \<le> 0" by blast
  have mn: "count c \<le> count d" if "d \<in> set candidates" for d
    using c(3) that by (force simp: loadCompare_le)
  have tie: "lc (tm_id (tm c)) (tm_id (tm d)) \<le> 0" if "d \<in> set candidates" "count d = count c" for d
    using c(3) that by (force simp: loadCompare_le)
  have lex: "tm_id (tm c) \<le> tm_id (tm d)"
    if agree: "\<forall>d \<in> set candidates. \<forall>e \<in> set candidates.
                  (lc (tm_id (tm d)) (tm_id (tm e)) \<le> 0) = (tm_id (tm d) \<le> tm_id (tm e))"
      and d: "d \<in> set candidates" "count d = count c" for d
    using agree c(2) d(1) tie[OF d] by blast
  from c(1,2) mn tie lex show ?thesis by blast
qed

text \<open>The pool c (1 request), a (2), b (1): b is chosen, ahead of c on the id.\<close>

theorem C5_load_based_minimal_witness:
  "selectLoadBased alnumCollate ex_pool = Some ex_cwB
   \<and> count ex_cwB \<le> count ex_cwA \<and> count ex_cwB \<le> count ex_cwC
   \<and> alnumCollate (tm_id (tm ex_cwB)) (tm_id (tm ex_cwC)) \<le> 0
   \<and> tm_id (tm ex_cwB) \<le> tm_id (tm ex_cwC)"
proof -
  have ne: "ex_pool \<noteq> []" by (simp add: ex_pool_def)
  have sel: "selectLoadBased alnumCollate ex_pool = Some ex_cwB" by code_simp
  have same: "count ex_cwC = count ex_cwB" by (simp add: ex_cwC_def ex_cwB_def)
  have agree: "\<forall>d \<in> set ex_pool. \<forall>e \<in> set ex_pool.
                  (alnumCollate (tm_id (tm d)) (tm_id (tm e)) \<le> 0) = (tm_id (tm d) \<le> tm_id (tm e))"
    by code_simp
  have mem: "ex_cwA \<in> set ex_pool" "ex_cwC \<in> set ex_pool" by (simp_all add: ex_pool_def)
  from C5_load_based_minimal[OF ne alnumCollate_consistent]
  obtain c where c: "selectLoadBased alnumCollate ex_pool = Some c"
    and mn: "\<forall>d \<in> set ex_pool. count c \<le> count d"
    and tie: "\<forall>d \<in> set ex_pool. count d = count c \<longrightarrow>
                alnumCollate (tm_id (tm c)) (tm_id (tm d)) \<le> 0"
    and lex: "(\<forall>d \<in> set ex_pool. \<forall>e \<in> set ex_pool.
                  (alnumCollate (tm_id (tm d)) (tm_id (tm e)) \<le> 0) = (tm_id (tm d) \<le> tm_id (tm e)))
                \<longrightarrow> (\<forall>d \<in> set ex_pool. count d = count c \<longrightarrow> tm_id (tm c) \<le> tm_id (tm d))"
    by (elim exE conjE) (rule that)
  from c sel have cb: "c = ex_cwB" by simp
  from mn mem have "count ex_cwB \<le> count ex_cwA" "count ex_cwB \<le> count ex_cwC"
    unfolding cb by blast+
  moreover from tie mem(2) same have "alnumCollate (tm_id (tm ex_cwB)) (tm_id (tm ex_cwC)) \<le> 0"
    unfolding cb by blast
  moreover from lex agree mem(2) same have "tm_id (tm ex_cwB) \<le> tm_id (tm ex_cwC)"
    unfolding cb by blast
  ultimately show ?thesis using sel by simp
qed

text \<open>
  Claim C8: for a non-empty pool whose candidates have pairwise different, non-empty
  ids (they are primary keys), any starting cache and any \<open>localeCompare\<close>. The
  sorted copy holds the whole pool, in ascending order of \<open>localeCompare\<close> on the ids when
  that is a consistent comparator. A selection whose cache holds the id at position i picks position
  (i + 1) mod N; one whose cache holds nothing, or an id that is not in the pool, picks
  position 0; either writes the chosen id back under the tenant's key. N successive
  selections return N candidates with pairwise different ids that together are the whole
  pool: each candidate exactly once.
\<close>

theorem C8_round_robin_visits_each_once:
  assumes ne: "candidates \<noteq> []"
    and dist: "distinct (map (\<lambda>c. tm_id (tm c)) candidates)"
    and ids: "\<forall>c \<in> set candidates. tm_id (tm c) \<noteq> []"
  shows "(consistentComparator lc \<longrightarrow>
            sorted_wrt (\<lambda>a b. lc (tm_id (tm a)) (tm_id (tm b)) \<le> 0)
              (sortWith (idCompare lc) candidates))
       \<and> set (sortWith (idCompare lc) candidates) = set candidates
       \<and> length (sortWith (idCompare lc) candidates) = length candidates
       \<and> (\<forall>i < length candidates.
             rc (rotationKey tenantId) = Some (tm_id (tm (sortWith (idCompare lc) candidates ! i))) \<longrightarrow>
             selectRoundRobin lc candidates tenantId rc =
               (Some (sortWith (idCompare lc) candidates ! ((i + 1) mod length candidates)),
                rc(rotationKey tenantId \<mapsto>
                     tm_id (tm (sortWith (idCompare lc) candidates ! ((i + 1) mod length candidates))))))
       \<and> (rc (rotationKey tenantId) = None
            \<or> (\<forall>c \<in> set candidates. Some (tm_id (tm c)) \<noteq> rc (rotationKey tenantId)) \<longrightarrow>
             selectRoundRobin lc candidates tenantId rc =
               (Some (sortWith (idCompare lc) candidates ! 0),
                rc(rotationKey tenantId \<mapsto> tm_id (tm (sortWith (idCompare lc) candidates ! 0)))))
       \<and> length (fst (roundRobinRun (length candidates) lc candidates tenantId rc)) = length candidates
       \<and> distinct (map (\<lambda>c. tm_id (tm c))
                    (fst (roundRobinRun (length candidates) lc candidates tenantId rc)))
       \<and> set (fst (roundRobinRun (length candidates) lc candidates tenantId rc)) = set candidates"
proof -
  let ?o = "sortWith (idCompare lc) candidates"
  let ?N = "length candidates"
  let ?key = "rotationKey tenantId"
  have len: "length ?o = ?N" by (rule length_sortWith)
  have st: "set ?o = set candidates" by (rule set_sortWith)
  have d: "distinct (map (\<lambda>c. tm_id (tm c)) ?o)"
    using dist by (simp add: distinct_map_sortWith)
  note step = selectRoundRobin_step[OF ne, where lc = lc and tenantId = tenantId and rc = rc]
  have hit: "selectRoundRobin lc candidates tenantId rc =
               (Some (?o ! ((i + 1) mod ?N)), rc(?key \<mapsto> tm_id (tm (?o ! ((i + 1) mod ?N)))))"
    if i: "i < ?N" and c: "rc ?key = Some (tm_id (tm (?o ! i)))" for i
  proof -
    have io: "i < length ?o" using i len by simp
    have "tm_id (tm (?o ! i)) \<noteq> []"
      using ids nth_mem[OF io] st by blast
    from nextIndex_hit[OF d io this] c len
    have "nextIndex ?o (rc ?key) = int ((i + 1) mod ?N)" by simp
    with step show ?thesis by simp
  qed
  have miss: "selectRoundRobin lc candidates tenantId rc =
               (Some (?o ! 0), rc(?key \<mapsto> tm_id (tm (?o ! 0))))"
    if "rc ?key = None \<or> (\<forall>c \<in> set candidates. Some (tm_id (tm c)) \<noteq> rc ?key)"
  proof -
    from that st have "rc ?key = None \<or> (\<forall>e \<in> set ?o. Some (tm_id (tm e)) \<noteq> rc ?key)"
      by simp
    then have "nextIndex ?o (rc ?key) = 0" by (rule nextIndex_miss)
    with step show ?thesis by simp
  qed
  note picks = roundRobinRun_rotate[OF ne dist ids, where lc = lc and tenantId = tenantId and rc = rc]
  have p1: "length (fst (roundRobinRun ?N lc candidates tenantId rc)) = ?N"
    by (simp add: picks len)
  have p2: "distinct (map (\<lambda>c. tm_id (tm c)) (fst (roundRobinRun ?N lc candidates tenantId rc)))"
    using d by (simp add: picks rotate_map[symmetric])
  have p3: "set (fst (roundRobinRun ?N lc candidates tenantId rc)) = set candidates"
    by (simp add: picks st)
  have srt: "consistentComparator lc \<longrightarrow>
            sorted_wrt (\<lambda>a b. lc (tm_id (tm a)) (tm_id (tm b)) \<le> 0) ?o"
    using sorted_wrt_sortWith_id[of lc candidates] by blast
  from srt st len hit miss p1 p2 p3 show ?thesis
    by blast
qed

text \<open>
  Three selections over the pool c, a, b: from an empty cache they pick a, b, c; from a
  cache holding b they pick c, a, b.
\<close>

theorem C8_round_robin_visits_each_once_witness:
  "sorted_wrt (\<lambda>a b. alnumCollate (tm_id (tm a)) (tm_id (tm b)) \<le> 0)
     (sortWith (idCompare alnumCollate) ex_pool)
   \<and> distinct (map (\<lambda>c. tm_id (tm c)) (fst (roundRobinRun 3 alnumCollate ex_pool None Map.empty)))
   \<and> set (fst (roundRobinRun 3 alnumCollate ex_pool None Map.empty)) = set ex_pool
   \<and> map (\<lambda>c. tm_id (tm c)) (fst (roundRobinRun 3 alnumCollate ex_pool None Map.empty))
       = [''a'', ''b'', ''c'']
   \<and> map (\<lambda>c. tm_id (tm c))
        (fst (roundRobinRun 3 alnumCollate ex_pool None (Map.empty(rotationKey None \<mapsto> ''b''))))
      = [''c'', ''a'', ''b'']"
proof -
  have ne: "ex_pool \<noteq> []" by (simp add: ex_pool_def)
  have n: "length ex_pool = 3" by (simp add: ex_pool_def)
  have dist: "distinct (map (\<lambda>c. tm_id (tm c)) ex_pool)" by code_simp
  have ids: "\<forall>c \<in> set ex_pool. tm_id (tm c) \<noteq> []" by code_simp
  have run1: "map (\<lambda>c. tm_id (tm c)) (fst (roundRobinRun 3 alnumCollate ex_pool None Map.empty))
                = [''a'', ''b'', ''c'']"
    by code_simp
  have run2: "map (\<lambda>c. tm_id (tm c))
                (fst (roundRobinRun 3 alnumCollate ex_pool None (Map.empty(rotationKey None \<mapsto> ''b''))))
              = [''c'', ''a'', ''b'']"
    by code_simp
  note T = C8_round_robin_visits_each_once[OF ne dist ids,
             where lc = alnumCollate and rc = Map.empty and tenantId = None]
  from T alnumCollate_consistent
  have "sorted_wrt (\<lambda>a b. alnumCollate (tm_id (tm a)) (tm_id (tm b)) \<le> 0)
          (sortWith (idCompare alnumCollate) ex_pool)"
    by blast
  moreover from T
  have "distinct (map (\<lambda>c. tm_id (tm c)) (fst (roundRobinRun 3 alnumCollate ex_pool None Map.empty)))"
    and "set (fst (roundRobinRun 3 alnumCollate ex_pool None Map.empty)) = set ex_pool"
    unfolding n by blast+
  ultimately show ?thesis using run1 run2 by simp
qed

lemma autoAssign_noop:
  assumes "find (\<lambda>r. sr_id r = rid) (st_requests st) = Some request"
    and "truthy (sr_assignedTeamMemberId request)
         \<or> \<not> autoAssign (loadSettings env (requestTenant request))
         \<or> findTeamMembers env st (requestTenant request) = []"
  shows "autoAssignServiceRequest env st rid = (Some request, st)"
  using assms by (auto simp: autoAssignServiceRequest_def Let_def)

lemma autoAssign_assigns:
  assumes found: "find (\<lambda>r. sr_id r = rid) (st_requests st) = Some request"
    and un: "\<not> truthy (sr_assignedTeamMemberId request)"
    and on: "autoAssign (loadSettings env (requestTenant request))"
    and pool: "findTeamMembers env st (requestTenant request) \<noteq> []"
  shows "\<exists>m \<in> set (findTeamMembers env st (requestTenant request)).
           fst (autoAssignServiceRequest env st rid) =
             Some (request \<lparr> sr_assignedTeamMemberId := Some (tm_id m),
                             sr_assignedAt := Some (env_now env),
                             sr_status := resolveAssignmentStatus
                                            (loadSettings env (requestTenant request)) \<rparr>)
         \<and> st_requests (snd (autoAssignServiceRequest env st rid)) =
             updateFirst (\<lambda>r. sr_id r = sr_id request)
               (\<lambda>r. r \<lparr> sr_assignedTeamMemberId := Some (tm_id m),
                         sr_assignedAt := Some (env_now env),
                         sr_status := resolveAssignmentStatus
                                        (loadSettings env (requestTenant request)) \<rparr>)
               (st_requests st)
         \<and> st_teamMembers (snd (autoAssignServiceRequest env st rid)) = st_teamMembers st
         \<and> st_services (snd (autoAssignServiceRequest env st rid)) = st_services st"
proof -
  let ?t = "requestTenant request"
  let ?s = "loadSettings env ?t"
  let ?ms = "findTeamMembers env st ?t"
  let ?ws = "map (workloadOf env st ?t request) ?ms"
  have "?ws \<noteq> []" using pool by simp
  from resolveAssignee_some[OF this, where lc = "env_localeCompare env" and settings = ?s
         and tenantId = ?t and rc = "st_rotationCache st"]
  obtain c rc' where c: "c \<in> set ?ws"
    and r: "resolveAssignee (env_localeCompare env) ?ws ?s ?t (st_rotationCache st) = (Some c, rc')"
    by blast
  from c obtain m where m: "m \<in> set ?ms" "c = workloadOf env st ?t request m" by auto
  then have tmc: "tm c = m" by (simp add: workloadOf_def)
  have assignTo_eq: "assignTo mid now s = (\<lambda>r. r \<lparr> sr_assignedTeamMemberId := Some mid,
                         sr_assignedAt := Some now, sr_status := s \<rparr>)" for mid now s
    by (rule ext) (simp add: assignTo_def)
  have res: "autoAssignServiceRequest env st rid =
     (Some (assignTo (tm_id m) (env_now env) (resolveAssignmentStatus ?s) request),
      st \<lparr> st_requests := updateFirst (\<lambda>r. sr_id r = sr_id request)
                             (assignTo (tm_id m) (env_now env) (resolveAssignmentStatus ?s))
                             (st_requests st),
           st_rotationCache := rc',
           st_emitted := st_emitted st
             @ [(sr_id (assignTo (tm_id m) (env_now env) (resolveAssignmentStatus ?s) request),
                 tm_id m)] \<rparr>)"
    using found un on pool r tmc
    by (simp add: autoAssignServiceRequest_def Let_def)
  show ?thesis
    using m(1) by (intro bexI[of _ m]) (simp_all add: res assignTo_eq[symmetric], simp add: assignTo_def)
qed

text \<open>
  Claim C9: for a stored request, when it already has an assignee, or the tenant's
  \<open>autoAssign\<close> setting is off, or no active and available team member is found, the
  engine returns the request as read and leaves every table, the rotation cache and the
  emitted notifications as they were. Otherwise a member of the candidate pool is
  selected, and the stored request and the returned one differ from the request as read
  in \<open>assignedTeamMemberId\<close>, \<open>assignedAt\<close> and \<open>status\<close> only; team members and
  services are never written.
\<close>

theorem C9_auto_assign_frame:
  assumes found: "find (\<lambda>r. sr_id r = rid) (st_requests st) = Some request"
  shows "(truthy (sr_assignedTeamMemberId request)
            \<or> \<not> autoAssign (loadSettings env (requestTenant request))
            \<or> findTeamMembers env st (requestTenant request) = []
          \<longrightarrow> autoAssignServiceRequest env st rid = (Some request, st))
       \<and> (\<not> truthy (sr_assignedTeamMemberId request)
            \<and> autoAssign (loadSettings env (requestTenant request))
            \<and> findTeamMembers env st (requestTenant request) \<noteq> []
          \<longrightarrow> (\<exists>m \<in> set (findTeamMembers env st (requestTenant request)).
                 fst (autoAssignServiceRequest env st rid) =
                   Some (request \<lparr> sr_assignedTeamMemberId := Some (tm_id m),
                                   sr_assignedAt := Some (env_now env),
                                   sr_status := resolveAssignmentStatus
                                                  (loadSettings env (requestTenant request)) \<rparr>)
               \<and> st_requests (snd (autoAssignServiceRequest env st rid)) =
                   updateFirst (\<lambda>r. sr_id r = sr_id request)
                     (\<lambda>r. r \<lparr> sr_assignedTeamMemberId := Some (tm_id m),
                               sr_assignedAt := Some (env_now env),
                               sr_status := resolveAssignmentStatus
                                              (loadSettings env (requestTenant request)) \<rparr>)
                     (st_requests st)
               \<and> st_teamMembers (snd (autoAssignServiceRequest env st rid)) = st_teamMembers st
               \<and> st_services (snd (autoAssignServiceRequest env st rid)) = st_services st))"
  using autoAssign_noop[OF found] autoAssign_assigns[OF found] by blast

text \<open>
  Request r1 is assigned to b already and comes back as it is, the state untouched;
  request r2 is open and comes back assigned to a, who has no open request, with status
  \<open>ASSIGNED\<close>.
\<close>

theorem C9_auto_assign_frame_witness:
  "autoAssignServiceRequest ex_aenv ex_st ''r1'' = (Some ex_reqAssigned, ex_st)
   \<and> map_option sr_status (fst (autoAssignServiceRequest ex_aenv ex_st ''r2'')) = Some ''ASSIGNED''
   \<and> map_option sr_assignedAt (fst (autoAssignServiceRequest ex_aenv ex_st ''r2''))
        = Some (Some 1709978400000)
   \<and> map_option sr_assignedTeamMemberId (fst (autoAssignServiceRequest ex_aenv ex_st ''r2''))
        = Some (Some ''a'')"
proof -
  have f1: "find (\<lambda>r. sr_id r = ''r1'') (st_requests ex_st) = Some ex_reqAssigned"
    by code_simp
  have a1: "truthy (sr_assignedTeamMemberId ex_reqAssigned)"
    by code_simp
  have f2: "find (\<lambda>r. sr_id r = ''r2'') (st_requests ex_st) = Some ex_reqOpen"
    by code_simp
  have a2: "\<not> truthy (sr_assignedTeamMemberId ex_reqOpen)"
       "autoAssign (loadSettings ex_aenv (requestTenant ex_reqOpen))"
       "findTeamMembers ex_aenv ex_st (requestTenant ex_reqOpen) \<noteq> []"
    by code_simp+
  have s: "resolveAssignmentStatus (loadSettings ex_aenv (requestTenant ex_reqOpen)) = ''ASSIGNED''"
    by code_simp
  have who: "map_option sr_assignedTeamMemberId (fst (autoAssignServiceRequest ex_aenv ex_st ''r2''))
        = Some (Some ''a'')"
    by code_simp
  from C9_auto_assign_frame[OF f1, of ex_aenv] a1
  have 1: "autoAssignServiceRequest ex_aenv ex_st ''r1'' = (Some ex_reqAssigned, ex_st)"
    by blast
  from C9_auto_assign_frame[OF f2, of ex_aenv, THEN conjunct2, THEN mp,
         OF conjI[OF a2(1) conjI[OF a2(2) a2(3)]]]
  obtain m where "m \<in> set (findTeamMembers ex_aenv ex_st (requestTenant ex_reqOpen))"
    and r2: "fst (autoAssignServiceRequest ex_aenv ex_st ''r2'') =
                   Some (ex_reqOpen \<lparr> sr_assignedTeamMemberId := Some (tm_id m),
                                   sr_assignedAt := Some (env_now ex_aenv),
                                   sr_status := resolveAssignmentStatus
                                                  (loadSettings ex_aenv (requestTenant ex_reqOpen)) \<rparr>)"
    by (elim bexE conjE) (rule that)
  have now: "env_now ex_aenv = 1709978400000" by (simp add: ex_aenv_def)
  have 2: "map_option sr_status (fst (autoAssignServiceRequest ex_aenv ex_st ''r2'')) = Some ''ASSIGNED''"
    and 3: "map_option sr_assignedAt (fst (autoAssignServiceRequest ex_aenv ex_st ''r2''))
        = Some (Some 1709978400000)"
    by (simp_all add: r2 s now)
  from 1 2 3 who show ?thesis by simp
qed

end
